theory Spec2Isabelle
  imports Main "HOL-Library.Sublist"
begin

section \<open>Characters and strings\<close>

text \<open>
  Python strings are sequences of code points. The model reads a HOL \<open>char\<close> as a code
  point below 256, so \<open>length\<close> is Python's \<open>len\<close>. On these code points
  \<open>str.isspace\<close> and the pattern class \<open>\s\<close> agree, \<open>\d\<close> is \<open>0-9\<close>, and
  \<open>str.lower\<close> moves \<open>A-Z\<close> and the upper-case letters of Latin-1.
\<close>

definition newline :: char where
  "newline = CHR 0x0A"

definition is_space :: "char \<Rightarrow> bool" where
  "is_space c \<longleftrightarrow> List.member
     [CHR 0x09, CHR 0x0A, CHR 0x0B, CHR 0x0C, CHR 0x0D, CHR 0x1C, CHR 0x1D, CHR 0x1E,
      CHR 0x1F, CHR 0x20, CHR 0x85, CHR 0xA0] c"

definition is_digit :: "char \<Rightarrow> bool" where
  "is_digit c \<longleftrightarrow> List.member ''0123456789'' c"

definition case_table :: "(char \<times> char) list" where
  "case_table =
  [(CHR ''A'', CHR ''a''), (CHR ''B'', CHR ''b''), (CHR ''C'', CHR ''c''), (CHR ''D'', CHR ''d''),
   (CHR ''E'', CHR ''e''), (CHR ''F'', CHR ''f''), (CHR ''G'', CHR ''g''), (CHR ''H'', CHR ''h''),
   (CHR ''I'', CHR ''i''), (CHR ''J'', CHR ''j''), (CHR ''K'', CHR ''k''), (CHR ''L'', CHR ''l''),
   (CHR ''M'', CHR ''m''), (CHR ''N'', CHR ''n''), (CHR ''O'', CHR ''o''), (CHR ''P'', CHR ''p''),
   (CHR ''Q'', CHR ''q''), (CHR ''R'', CHR ''r''), (CHR ''S'', CHR ''s''), (CHR ''T'', CHR ''t''),
   (CHR ''U'', CHR ''u''), (CHR ''V'', CHR ''v''), (CHR ''W'', CHR ''w''), (CHR ''X'', CHR ''x''),
   (CHR ''Y'', CHR ''y''), (CHR ''Z'', CHR ''z''), (CHR 0xC0, CHR 0xE0), (CHR 0xC1, CHR 0xE1),
   (CHR 0xC2, CHR 0xE2), (CHR 0xC3, CHR 0xE3), (CHR 0xC4, CHR 0xE4), (CHR 0xC5, CHR 0xE5),
   (CHR 0xC6, CHR 0xE6), (CHR 0xC7, CHR 0xE7), (CHR 0xC8, CHR 0xE8), (CHR 0xC9, CHR 0xE9),
   (CHR 0xCA, CHR 0xEA), (CHR 0xCB, CHR 0xEB), (CHR 0xCC, CHR 0xEC), (CHR 0xCD, CHR 0xED),
   (CHR 0xCE, CHR 0xEE), (CHR 0xCF, CHR 0xEF), (CHR 0xD0, CHR 0xF0), (CHR 0xD1, CHR 0xF1),
   (CHR 0xD2, CHR 0xF2), (CHR 0xD3, CHR 0xF3), (CHR 0xD4, CHR 0xF4), (CHR 0xD5, CHR 0xF5),
   (CHR 0xD6, CHR 0xF6), (CHR 0xD8, CHR 0xF8), (CHR 0xD9, CHR 0xF9), (CHR 0xDA, CHR 0xFA),
   (CHR 0xDB, CHR 0xFB), (CHR 0xDC, CHR 0xFC), (CHR 0xDD, CHR 0xFD), (CHR 0xDE, CHR 0xFE)]"

text \<open>\<open>str.lower\<close>, one code point at a time.\<close>

definition lower_char :: "char \<Rightarrow> char" where
  "lower_char c = (case map_of case_table c of Some l \<Rightarrow> l | None \<Rightarrow> c)"

definition lower :: "string \<Rightarrow> string" where
  "lower s = map lower_char s"

text \<open>
  \<open>str.upper\<close>, which the parsers apply to one captured option letter \<open>a-d\<close>/\<open>A-D\<close> only:
  the table is read backwards for the ASCII letters and every other character is kept.
\<close>

definition upper_char :: "char \<Rightarrow> char" where
  "upper_char c = (case map_of (map (\<lambda>(u, l). (l, u)) (take 26 case_table)) c of
                     Some u \<Rightarrow> u | None \<Rightarrow> c)"

definition upper :: "string \<Rightarrow> string" where
  "upper s = map upper_char s"

text \<open>\<open>int(s)\<close> on a captured run of digits.\<close>

definition digit_val :: "char \<Rightarrow> nat" where
  "digit_val c = (case map_of (zip ''0123456789'' [0, 1, 2, 3, 4, 5, 6, 7, 8, 9]) c of
                    Some n \<Rightarrow> n | None \<Rightarrow> 0)"

definition int_of_digits :: "string \<Rightarrow> nat" where
  "int_of_digits s = foldl (\<lambda>n c. 10 * n + digit_val c) 0 s"

text \<open>\<open>s.strip()\<close>: whitespace removed at both ends.\<close>

definition strip :: "string \<Rightarrow> string" where
  "strip s = rev (dropWhile is_space (rev (dropWhile is_space s)))"

text \<open>\<open>s.split()\<close>: the maximal runs of non-whitespace characters, in order.\<close>

function split_ws :: "string \<Rightarrow> string list" where
  "split_ws s =
     (let t = dropWhile is_space s in
      if t = [] then []
      else takeWhile (\<lambda>c. \<not> is_space c) t # split_ws (dropWhile (\<lambda>c. \<not> is_space c) t))"
  by pat_completeness auto
termination
proof (relation "measure length")
  show "wf (measure length)" by simp
next
  fix s t :: string
  assume t: "t = dropWhile is_space s" and ne: "t \<noteq> []"
  obtain c cs where tc: "t = c # cs" using ne by (cases t) auto
  have "\<not> is_space (hd t)"
    using t ne hd_dropWhile by metis
  then have "dropWhile (\<lambda>c. \<not> is_space c) t = dropWhile (\<lambda>c. \<not> is_space c) cs"
    using tc by simp
  moreover have "length (dropWhile (\<lambda>c. \<not> is_space c) cs) \<le> length cs"
    by (rule length_dropWhile_le)
  moreover have "length t \<le> length s"
    unfolding t by (rule length_dropWhile_le)
  ultimately have "length (dropWhile (\<lambda>c. \<not> is_space c) t) < length s"
    using tc by simp
  then show "(dropWhile (\<lambda>c. \<not> is_space c) t, s) \<in> measure length" by simp
qed

declare split_ws.simps [simp del]

text \<open>\<open>sep.join(parts)\<close>.\<close>

fun join :: "string \<Rightarrow> string list \<Rightarrow> string" where
  "join sep [] = []"
| "join sep [x] = x"
| "join sep (x # y # ys) = x @ sep @ join sep (y # ys)"

text \<open>\<open>s.split(sep)\<close> for a one-character separator: empty pieces are kept.\<close>

fun split_on :: "char \<Rightarrow> string \<Rightarrow> string list" where
  "split_on d [] = [[]]"
| "split_on d (c # cs) =
     (if c = d then [] # split_on d cs
      else (case split_on d cs of
              [] \<Rightarrow> [[c]]
            | w # ws \<Rightarrow> (c # w) # ws))"

text \<open>\<open>needle in haystack\<close>.\<close>

fun contains :: "string \<Rightarrow> string \<Rightarrow> bool" where
  "contains needle [] = (needle = [])"
| "contains needle (c # cs) = (prefix needle (c # cs) \<or> contains needle cs)"

section \<open>Backtracking regular expressions\<close>

text \<open>
  The patterns of the source are values of \<open>regex\<close>, matched the way Python's \<open>re\<close>
  does: alternatives left to right, greedy quantifiers longest first, lazy ones
  shortest first, with backtracking into the rest of the pattern (the continuation).
  Every quantified atom of the source's patterns is a single character class.
\<close>

datatype citem = C char | D | S

datatype cset = Item citem | Dot | In "citem list" | NotIn "citem list"

datatype regex =
    Eps
  | Sym cset
  | Seq regex regex
  | Alt regex regex
  | Opt regex
  | Star cset
  | Plus cset
  | PlusLazy cset
  | Grp nat regex
  | Bol
  | Eol
  | Ahead regex

record flags =
  ignorecase :: bool
  dotall :: bool

definition no_flags :: flags where
  "no_flags = \<lparr>ignorecase = False, dotall = False\<rparr>"

definition IGNORECASE :: flags where
  "IGNORECASE = \<lparr>ignorecase = True, dotall = False\<rparr>"

definition DOTALL_IGNORECASE :: flags where
  "DOTALL_IGNORECASE = \<lparr>ignorecase = True, dotall = True\<rparr>"

fun item_ok :: "flags \<Rightarrow> citem \<Rightarrow> char \<Rightarrow> bool" where
  "item_ok f (C l) c = (if ignorecase f then lower_char c = lower_char l else c = l)"
| "item_ok f D c = is_digit c"
| "item_ok f S c = is_space c"

fun cset_ok :: "flags \<Rightarrow> cset \<Rightarrow> char \<Rightarrow> bool" where
  "cset_ok f (Item i) c = item_ok f i c"
| "cset_ok f Dot c = (dotall f \<or> c \<noteq> newline)"
| "cset_ok f (In is) c = list_ex (\<lambda>i. item_ok f i c) is"
| "cset_ok f (NotIn is) c = (\<not> list_ex (\<lambda>i. item_ok f i c) is)"

text \<open>A literal string, and the characters of a bracket class.\<close>

definition lit :: "string \<Rightarrow> regex" where
  "lit s = foldr (\<lambda>c r. Seq (Sym (Item (C c))) r) s Eps"

definition chars :: "string \<Rightarrow> citem list" where
  "chars s = map C s"

text \<open>
  A matcher state is the position in the subject, the text from there on, and the
  groups captured so far (latest first).
\<close>

type_synonym mstate = "nat \<times> string \<times> (nat \<times> string) list"

fun star_greedy :: "(char \<Rightarrow> bool) \<Rightarrow> (mstate \<Rightarrow> mstate option) \<Rightarrow> nat \<Rightarrow>
    (nat \<times> string) list \<Rightarrow> string \<Rightarrow> mstate option" where
  "star_greedy p k i g [] = k (i, [], g)"
| "star_greedy p k i g (c # r) =
     (if p c then
        (case star_greedy p k (Suc i) g r of
           Some m \<Rightarrow> Some m
         | None \<Rightarrow> k (i, c # r, g))
      else k (i, c # r, g))"

fun star_lazy :: "(char \<Rightarrow> bool) \<Rightarrow> (mstate \<Rightarrow> mstate option) \<Rightarrow> nat \<Rightarrow>
    (nat \<times> string) list \<Rightarrow> string \<Rightarrow> mstate option" where
  "star_lazy p k i g [] = k (i, [], g)"
| "star_lazy p k i g (c # r) =
     (case k (i, c # r, g) of
        Some m \<Rightarrow> Some m
      | None \<Rightarrow> if p c then star_lazy p k (Suc i) g r else None)"

fun sym :: "(char \<Rightarrow> bool) \<Rightarrow> (mstate \<Rightarrow> mstate option) \<Rightarrow> mstate \<Rightarrow> mstate option" where
  "sym p k (i, [], g) = None"
| "sym p k (i, c # r, g) = (if p c then k (Suc i, r, g) else None)"

primrec rmatch :: "flags \<Rightarrow> regex \<Rightarrow> (mstate \<Rightarrow> mstate option) \<Rightarrow> mstate \<Rightarrow> mstate option" where
  "rmatch f Eps k st = k st"
| "rmatch f (Sym cs) k st = sym (cset_ok f cs) k st"
| "rmatch f (Seq r1 r2) k st = rmatch f r1 (rmatch f r2 k) st"
| "rmatch f (Alt r1 r2) k st =
     (case rmatch f r1 k st of Some m \<Rightarrow> Some m | None \<Rightarrow> rmatch f r2 k st)"
| "rmatch f (Opt r) k st =
     (case rmatch f r k st of Some m \<Rightarrow> Some m | None \<Rightarrow> k st)"
| "rmatch f (Star cs) k st =
     (case st of (i, s, g) \<Rightarrow> star_greedy (cset_ok f cs) k i g s)"
| "rmatch f (Plus cs) k st =
     sym (cset_ok f cs) (\<lambda>(i, s, g). star_greedy (cset_ok f cs) k i g s) st"
| "rmatch f (PlusLazy cs) k st =
     sym (cset_ok f cs) (\<lambda>(i, s, g). star_lazy (cset_ok f cs) k i g s) st"
| "rmatch f (Grp n r) k st =
     (case st of (i, s, g) \<Rightarrow>
        rmatch f r (\<lambda>(j, s', g'). k (j, s', (n, take (j - i) s) # g')) st)"
| "rmatch f Bol k st = (case st of (i, s, g) \<Rightarrow> if i = 0 then k st else None)"
| "rmatch f Eol k st =
     (case st of (i, s, g) \<Rightarrow> if s = [] \<or> s = [newline] then k st else None)"
| "rmatch f (Ahead r) k st =
     (case rmatch f r Some st of Some m \<Rightarrow> k st | None \<Rightarrow> None)"

text \<open>
  A match object: where the match starts and ends in the subject, and its groups.
\<close>

record rematch =
  m_start :: nat
  m_end :: nat
  m_groups :: "(nat \<times> string) list"

definition group :: "rematch \<Rightarrow> nat \<Rightarrow> string" where
  "group m n = (case map_of (m_groups m) n of Some s \<Rightarrow> s | None \<Rightarrow> [])"

text \<open>The pattern tried at position \<open>i\<close>, where \<open>s\<close> is the subject from \<open>i\<close> on.\<close>

definition match_at :: "flags \<Rightarrow> regex \<Rightarrow> nat \<Rightarrow> string \<Rightarrow> rematch option" where
  "match_at f r i s =
     (case rmatch f r Some (i, s, []) of
        None \<Rightarrow> None
      | Some (j, s', g) \<Rightarrow> Some \<lparr>m_start = i, m_end = j, m_groups = g\<rparr>)"

text \<open>\<open>re.match\<close>: at the start of the subject only.\<close>

definition re_match :: "flags \<Rightarrow> regex \<Rightarrow> string \<Rightarrow> rematch option" where
  "re_match f r s = match_at f r 0 s"

text \<open>\<open>re.search\<close>: the leftmost position where the pattern matches.\<close>

fun search_from :: "flags \<Rightarrow> regex \<Rightarrow> nat \<Rightarrow> string \<Rightarrow> rematch option" where
  "search_from f r i [] = match_at f r i []"
| "search_from f r i (c # cs) =
     (case match_at f r i (c # cs) of
        Some m \<Rightarrow> Some m
      | None \<Rightarrow> search_from f r (Suc i) cs)"

definition re_search :: "flags \<Rightarrow> regex \<Rightarrow> string \<Rightarrow> rematch option" where
  "re_search f r s = search_from f r 0 s"

text \<open>
  \<open>re.sub\<close> with a constant replacement: the non-overlapping matches, leftmost first,
  are each replaced. (No pattern the source substitutes can match the empty string;
  such a match is replaced and the scan moves on by one character.)
\<close>

fun sub_from :: "flags \<Rightarrow> regex \<Rightarrow> string \<Rightarrow> nat \<Rightarrow> string \<Rightarrow> string" where
  "sub_from f r repl i [] = (case match_at f r i [] of Some m \<Rightarrow> repl | None \<Rightarrow> [])"
| "sub_from f r repl i (c # cs) =
     (case match_at f r i (c # cs) of
        None \<Rightarrow> c # sub_from f r repl (Suc i) cs
      | Some m \<Rightarrow>
          if m_end m \<le> i then repl @ c # sub_from f r repl (Suc i) cs
          else repl @ sub_from f r repl (m_end m) (drop (m_end m - Suc i) cs))"

definition re_sub :: "flags \<Rightarrow> regex \<Rightarrow> string \<Rightarrow> string \<Rightarrow> string" where
  "re_sub f r repl s = sub_from f r repl 0 s"

text \<open>\<open>re.finditer\<close>: the non-overlapping matches, leftmost first.\<close>

fun finditer_from :: "flags \<Rightarrow> regex \<Rightarrow> nat \<Rightarrow> string \<Rightarrow> rematch list" where
  "finditer_from f r i [] = (case match_at f r i [] of Some m \<Rightarrow> [m] | None \<Rightarrow> [])"
| "finditer_from f r i (c # cs) =
     (case match_at f r i (c # cs) of
        None \<Rightarrow> finditer_from f r (Suc i) cs
      | Some m \<Rightarrow>
          if m_end m \<le> i then m # finditer_from f r (Suc i) cs
          else m # finditer_from f r (m_end m) (drop (m_end m - Suc i) cs))"

definition re_finditer :: "flags \<Rightarrow> regex \<Rightarrow> string \<Rightarrow> rematch list" where
  "re_finditer f r s = finditer_from f r 0 s"

text \<open>Sequences and alternations with more than two parts.\<close>

definition seqs :: "regex list \<Rightarrow> regex" where
  "seqs rs = foldr Seq rs Eps"

fun alts :: "regex \<Rightarrow> regex list \<Rightarrow> regex" where
  "alts r [] = r"
| "alts r (r' # rs) = Alt r (alts r' rs)"

section \<open>parse_all_docs_v2.py\<close>

subsection \<open>clean_text\<close>

text \<open>\<^verbatim>\<open>Page:\s*\d+/\d+\<close>\<close>

definition page_marker :: regex where
  "page_marker =
     seqs [lit ''Page:'', Star (Item S), Plus (Item D), lit ''/'', Plus (Item D)]"

text \<open>\<^verbatim>\<open>Page\s+\d+\s+of\s+\d+\<close>\<close>

definition page_of_marker :: regex where
  "page_of_marker =
     seqs [lit ''Page'', Plus (Item S), Plus (Item D), Plus (Item S), lit ''of'',
           Plus (Item S), Plus (Item D)]"

definition clean_text :: "string \<Rightarrow> string" where
  "clean_text text =
     (let text = re_sub no_flags page_marker '' '' text;
          text = re_sub no_flags page_of_marker '' '' text;
          text = join '' '' (split_ws text)
      in strip text)"

subsection \<open>extract_marks\<close>

text \<open>\<^verbatim>\<open>(?:mark|marks|m)\<close> and \<^verbatim>\<open>(?:mark|marks)\<close>\<close>

definition mark_word_m :: regex where
  "mark_word_m = alts (lit ''mark'') [lit ''marks'', lit ''m'']"

definition mark_word :: regex where
  "mark_word = alts (lit ''mark'') [lit ''marks'']"

text \<open>
  The first four candidate shapes, shared by both versions of the script:
  \<^verbatim>\<open>\[(\d+)\s*(?:mark|marks|m)\]\<close>, \<^verbatim>\<open>\((\d+)\s*(?:mark|marks|m)\)\<close>,
  \<^verbatim>\<open>(\d+)\s*(?:mark|marks)\s*$\<close>, \<^verbatim>\<open>\[(\d+)\]\<close>.
\<close>

definition marks_bracketed :: regex where
  "marks_bracketed =
     seqs [lit ''['', Grp 1 (Plus (Item D)), Star (Item S), mark_word_m, lit '']'']"

definition marks_parenthesized :: regex where
  "marks_parenthesized =
     seqs [lit ''('', Grp 1 (Plus (Item D)), Star (Item S), mark_word_m, lit '')'']"

definition marks_trailing :: regex where
  "marks_trailing =
     seqs [Grp 1 (Plus (Item D)), Star (Item S), mark_word, Star (Item S), Eol]"

definition marks_bare_bracket :: regex where
  "marks_bare_bracket = seqs [lit ''['', Grp 1 (Plus (Item D)), lit '']'']"

text \<open>\<^verbatim>\<open>Marks\s*(\d+)\<close>, the fifth shape of version 2.\<close>

definition marks_label :: regex where
  "marks_label = seqs [lit ''Marks'', Star (Item S), Grp 1 (Plus (Item D))]"

text \<open>
  The loop of \<open>extract_marks\<close>: the first pattern of the list that is found anywhere
  in the text gives the value of its group 1.
\<close>

fun first_marks :: "regex list \<Rightarrow> string \<Rightarrow> nat option" where
  "first_marks [] text = None"
| "first_marks (pattern # patterns) text =
     (case re_search IGNORECASE pattern text of
        Some m \<Rightarrow> Some (int_of_digits (group m 1))
      | None \<Rightarrow> first_marks patterns text)"

definition extract_marks :: "string \<Rightarrow> nat option" where
  "extract_marks text =
     first_marks [marks_bracketed, marks_parenthesized, marks_trailing, marks_bare_bracket,
                  marks_label] text"

subsection \<open>detect_question_type\<close>

text \<open>Python's truth value of an \<open>Optional[int]\<close> and of an optional string.\<close>

fun truthy_int :: "nat option \<Rightarrow> bool" where
  "truthy_int None = False"
| "truthy_int (Some n) = (n \<noteq> 0)"

fun truthy_str :: "string option \<Rightarrow> bool" where
  "truthy_str None = False"
| "truthy_str (Some s) = (s \<noteq> [])"

text \<open>
  The body of \<open>detect_question_type\<close>, which is the same text in both versions of the
  script and calls the \<open>extract_marks\<close> of its own module.
\<close>

definition detect_with :: "(string \<Rightarrow> nat option) \<Rightarrow> string \<Rightarrow> string list \<Rightarrow> string" where
  "detect_with marks_of text options =
     (let text_lower = lower text in
      if options \<noteq> [] \<and> length options \<ge> 2 then ''mcq''
      else if contains ''true or false'' text_lower \<or> contains ''true/false'' text_lower
        then ''true_false''
      else if contains ''assertion'' text_lower \<and> contains ''reason'' text_lower
        then ''assertion_reason''
      else if contains ''fill in'' text_lower \<or> contains ''fill up'' text_lower
        then ''fill_blank''
      else if contains ''match'' text_lower \<and> contains ''column'' text_lower
        then ''matching''
      else
        (let marks = marks_of text in
         if truthy_int marks \<and> the marks \<ge> 4 then ''long_answer''
         else if truthy_int marks \<and> the marks \<ge> 2 then ''short_answer''
         else ''short_answer''))"

definition detect_question_type :: "string \<Rightarrow> string list \<Rightarrow> string" where
  "detect_question_type text options = detect_with extract_marks text options"

subsection \<open>Question records\<close>

text \<open>
  The dictionaries the parsers append. \<open>source\<close> is \<open>None\<close> where the dictionary has
  no such key (the chapter-bank parser of version 1). The keys \<open>type\<close> and
  \<open>chapter\<close> are the fields \<open>qtype\<close> and \<open>q_chapter\<close>.
\<close>

record question =
  questionText :: string
  qtype :: string
  marks :: nat
  options :: "string list option"
  correctAnswer :: "string option"
  q_chapter :: string
  source :: "string option"

subsection \<open>parse_document_universal\<close>

text \<open>
  The document is the list of its paragraph texts (\<open>para.text\<close> of
  \<open>doc.paragraphs\<close>); opening the file is outside the model.
\<close>

text \<open>
  The boundary patterns \<open>q_patterns\<close>:
  \<^verbatim>\<open>^Q\.?\s*No\.?\s*(\d+)\<close>, \<^verbatim>\<open>^Q\.?\s*(\d+)[.\):\s]\<close>, \<^verbatim>\<open>^(\d+)[.\)]\s+\<close>,
  \<^verbatim>\<open>^(\d+)\s+(?=[A-Z])\<close>.
\<close>

definition q_patterns :: "regex list" where
  "q_patterns =
     [seqs [Bol, lit ''Q'', Opt (lit ''.''), Star (Item S), lit ''No'', Opt (lit ''.''),
            Star (Item S), Grp 1 (Plus (Item D))],
      seqs [Bol, lit ''Q'', Opt (lit ''.''), Star (Item S), Grp 1 (Plus (Item D)),
            Sym (In (chars ''.):'' @ [S]))],
      seqs [Bol, Grp 1 (Plus (Item D)), Sym (In (chars ''.)'')), Plus (Item S)],
      seqs [Bol, Grp 1 (Plus (Item D)), Plus (Item S),
            Ahead (Sym (In (chars ''ABCDEFGHIJKLMNOPQRSTUVWXYZ'')))]]"

text \<open>\<^verbatim>\<open>^[(\[]?([a-dA-D])[)\].\s]+(.+)\<close>\<close>

definition option_pattern :: regex where
  "option_pattern =
     seqs [Bol, Opt (Sym (In (chars ''([''))), Grp 1 (Sym (In (chars ''abcdABCD''))),
           Plus (In (chars '')].'' @ [S])), Grp 2 (Plus Dot)]"

text \<open>
  \<^verbatim>\<open>^(Section|SECTION|General Instructions|Time Allowed|Maximum Marks|CLASS|COMPUTER SCIENCE|MARKING SCHEME|Q\s*No\s+Section)\<close>
\<close>

definition header_pattern :: regex where
  "header_pattern =
     seqs [Bol,
       Grp 1 (alts (lit ''Section'')
         [lit ''SECTION'', lit ''General Instructions'', lit ''Time Allowed'',
          lit ''Maximum Marks'', lit ''CLASS'', lit ''COMPUTER SCIENCE'',
          lit ''MARKING SCHEME'',
          seqs [lit ''Q'', Star (Item S), lit ''No'', Plus (Item S), lit ''Section'']])]"

text \<open>\<^verbatim>\<open>^OR\s*$\<close>\<close>

definition or_pattern :: regex where
  "or_pattern = seqs [Bol, lit ''OR'', Star (Item S), Eol]"

text \<open>\<^verbatim>\<open>\s*(Marks?|marks?)\s*\d*\s*$\<close> and \<^verbatim>\<open>\[?\d+\]?\s*$\<close>\<close>

definition trailing_marks_word :: regex where
  "trailing_marks_word =
     seqs [Star (Item S),
           Grp 1 (Alt (seqs [lit ''Mark'', Opt (lit ''s'')]) (seqs [lit ''mark'', Opt (lit ''s'')])),
           Star (Item S), Star (Item D), Star (Item S), Eol]"

definition trailing_number :: regex where
  "trailing_number =
     seqs [Opt (lit ''[''), Plus (Item D), Opt (lit '']''), Star (Item S), Eol]"

text \<open>
  The variables the loop and \<open>save_current_question\<close> share. (\<open>current_question\<close> is
  assigned \<open>None\<close> once and never read.)
\<close>

record ustate =
  questions :: "question list"
  current_q_num :: "string option"
  current_options :: "string list"
  current_marks :: "nat option"
  question_buffer :: "string list"

definition u_init :: ustate where
  "u_init = \<lparr>questions = [], current_q_num = None, current_options = [],
             current_marks = None, question_buffer = []\<rparr>"

text \<open>The text of the candidate: the buffer joined, trailing mark annotations removed.\<close>

definition final_text :: "string list \<Rightarrow> string" where
  "final_text buffer =
     (let q_text = join '' '' buffer;
          q_text = strip (re_sub no_flags trailing_marks_word [] q_text);
          q_text = strip (re_sub no_flags trailing_number [] q_text)
      in q_text)"

definition save_current_question :: "string \<Rightarrow> string \<Rightarrow> ustate \<Rightarrow> ustate" where
  "save_current_question source_name chapter_default st =
     (let qs =
        (if question_buffer st \<noteq> [] then
           (let q_text = final_text (question_buffer st) in
            if length q_text > 15 then
              (let q_type = detect_question_type q_text (current_options st);
                   mk = (if \<not> truthy_int (current_marks st)
                         then (if q_type = ''mcq'' then 1 else 2)
                         else the (current_marks st))
               in questions st @
                  [\<lparr>questionText = q_text, qtype = q_type, marks = mk,
                    options = (if current_options st \<noteq> [] then Some (current_options st)
                               else None),
                    correctAnswer = None, q_chapter = chapter_default,
                    source = Some source_name\<rparr>])
            else questions st)
         else questions st)
      in st\<lparr>questions := qs, question_buffer := [], current_options := [],
              current_marks := None\<rparr>)"

text \<open>
  The inner \<open>for pattern in q_patterns\<close>: the first pattern that matches at the start
  of the line, with its match.
\<close>

fun first_boundary :: "regex list \<Rightarrow> string \<Rightarrow> (regex \<times> rematch) option" where
  "first_boundary [] line = None"
| "first_boundary (pattern # patterns) line =
     (case re_match IGNORECASE pattern line of
        Some m \<Rightarrow> Some (pattern, m)
      | None \<Rightarrow> first_boundary patterns line)"

text \<open>One turn of \<open>for line in lines\<close>.\<close>

definition u_step :: "string \<Rightarrow> string \<Rightarrow> ustate \<Rightarrow> string \<Rightarrow> ustate" where
  "u_step source_name chapter_default st line =
     (if re_match IGNORECASE header_pattern line \<noteq> None then st
      else
        (case first_boundary q_patterns line of
           Some (pattern, m) \<Rightarrow>
             (let st = save_current_question source_name chapter_default st;
                  rest = strip (re_sub IGNORECASE pattern [] line)
              in st\<lparr>current_q_num := Some (group m 1),
                     question_buffer :=
                       (if rest \<noteq> [] then question_buffer st @ [rest] else question_buffer st),
                     current_marks := extract_marks line\<rparr>)
         | None \<Rightarrow>
             (let opt_match = re_match no_flags option_pattern line in
              if opt_match \<noteq> None \<and> question_buffer st \<noteq> [] then
                (let option_text =
                       upper (group (the opt_match) 1) @ '') '' @ group (the opt_match) 2
                 in st\<lparr>current_options := current_options st @ [option_text]\<rparr>)
              else if re_match IGNORECASE or_pattern line \<noteq> None then st
              else if question_buffer st \<noteq> [] \<or> truthy_str (current_q_num st)
                then st\<lparr>question_buffer := question_buffer st @ [line]\<rparr>
              else st)))"

text \<open>
  The lines the loop sees: every paragraph followed by a newline, page markers turned
  into line breaks, each line cleaned, empty lines dropped.
\<close>

definition u_lines :: "string list \<Rightarrow> string list" where
  "u_lines paragraphs =
     (let full_text = concat (map (\<lambda>p. p @ [newline]) paragraphs);
          full_text = re_sub no_flags page_marker [newline] full_text;
          full_text = re_sub no_flags page_of_marker [newline] full_text;
          lines = map clean_text (split_on newline full_text)
      in filter (\<lambda>l. l \<noteq> []) lines)"

text \<open>The loop over the lines and the last \<open>save_current_question()\<close> after it.\<close>

definition u_loop :: "string \<Rightarrow> string \<Rightarrow> ustate \<Rightarrow> string list \<Rightarrow> ustate" where
  "u_loop source_name chapter_default st lines =
     foldl (u_step source_name chapter_default) st lines"

definition u_run :: "string \<Rightarrow> string \<Rightarrow> string list \<Rightarrow> question list" where
  "u_run source_name chapter_default lines =
     questions (save_current_question source_name chapter_default
       (u_loop source_name chapter_default u_init lines))"

definition parse_document_universal :: "string list \<Rightarrow> string \<Rightarrow> string \<Rightarrow> question list" where
  "parse_document_universal paragraphs source_name chapter_default =
     u_run source_name chapter_default (u_lines paragraphs)"

subsection \<open>parse_chapter_bank\<close>

text \<open>\<^verbatim>\<open>(?:Q\.?\s*)?\<close>, the optional prefix of a numbering marker.\<close>

definition q_prefix :: regex where
  "q_prefix = Opt (seqs [lit ''Q'', Opt (lit ''.''), Star (Item S)])"

text \<open>\<^verbatim>\<open>(?:Q\.?\s*)?(\d+)[.\)]\s*(.+?)(?=(?:Q\.?\s*)?\d+[.\)]|$)\<close>\<close>

definition q_pattern :: regex where
  "q_pattern =
     seqs [q_prefix, Grp 1 (Plus (Item D)), Sym (In (chars ''.)'')), Star (Item S),
           Grp 2 (PlusLazy Dot),
           Ahead (Alt (seqs [q_prefix, Plus (Item D), Sym (In (chars ''.)''))]) Eol)]"

text \<open>
  \<^verbatim>\<open>(?:Ans(?:wer)?|Correct\s*Answer)[:\s]+(.+?)(?=\s*(?:Q\.?\s*)?\d+[.\)]|$)\<close>
\<close>

definition answer_pattern :: regex where
  "answer_pattern =
     seqs [Alt (seqs [lit ''Ans'', Opt (lit ''wer'')])
               (seqs [lit ''Correct'', Star (Item S), lit ''Answer'']),
           Plus (In [C CHR '':'', S]),
           Grp 1 (PlusLazy Dot),
           Ahead (Alt (seqs [Star (Item S), q_prefix, Plus (Item D), Sym (In (chars ''.)''))])
                      Eol)]"

text \<open>
  \<^verbatim>\<open>[(\[]?([a-dA-D])[)\].\s]+([^(\[a-dA-D]+?)(?=[(\[]?[a-dA-D][)\].\s]|$)\<close> and
  \<^verbatim>\<open>[(\[]?[a-dA-D][)\].\s]\<close>
\<close>

definition inline_option_start :: regex where
  "inline_option_start =
     seqs [Opt (Sym (In (chars ''([''))), Sym (In (chars ''abcdABCD'')),
           Sym (In (chars '')].'' @ [S]))]"

definition inline_option :: regex where
  "inline_option =
     seqs [Opt (Sym (In (chars ''([''))), Grp 1 (Sym (In (chars ''abcdABCD''))),
           Plus (In (chars '')].'' @ [S])),
           Grp 2 (PlusLazy (NotIn (chars ''([abcdABCD''))),
           Ahead (Alt inline_option_start Eol)]"

text \<open>\<^verbatim>\<open>\s*\[?\d+\s*(?:mark|marks|m)?\]?\s*$\<close>\<close>

definition trailing_marks_annotation :: regex where
  "trailing_marks_annotation =
     seqs [Star (Item S), Opt (lit ''[''), Plus (Item D), Star (Item S), Opt mark_word_m,
           Opt (lit '']''), Star (Item S), Eol]"

text \<open>The body of \<open>for q_num, q_content in matches\<close>: the record of one block, if any.\<close>

definition bank_block :: "string \<Rightarrow> string \<Rightarrow> question option" where
  "bank_block chapter_name content =
     (let q_content = clean_text content in
      if length q_content < 15 then None
      else
        (let ans_match = re_search IGNORECASE answer_pattern q_content;
             answer = (case ans_match of
                         Some m \<Rightarrow> Some (clean_text (group m 1))
                       | None \<Rightarrow> None);
             q_content = (case ans_match of
                            Some m \<Rightarrow> strip (take (m_start m) q_content)
                          | None \<Rightarrow> q_content);
             opts = map (\<lambda>m. upper (group m 1) @ '') '' @ clean_text (group m 2))
                        (re_finditer no_flags inline_option q_content);
             q_content =
               (if opts \<noteq> [] then
                  (case re_search no_flags inline_option_start q_content of
                     Some first_opt \<Rightarrow> strip (take (m_start first_opt) q_content)
                   | None \<Rightarrow> q_content)
                else q_content);
             q_type = detect_question_type q_content opts;
             mk = (if truthy_int (extract_marks q_content) then the (extract_marks q_content)
                   else if q_type = ''mcq'' then 1 else 2);
             q_content = strip (re_sub IGNORECASE trailing_marks_annotation [] q_content)
         in if length q_content > 15 then
              Some \<lparr>questionText = q_content, qtype = q_type, marks = mk,
                    options = (if opts \<noteq> [] then Some opts else None),
                    correctAnswer = answer, q_chapter = chapter_name,
                    source = Some (''Chapter Bank - '' @ chapter_name)\<rparr>
            else None))"

definition parse_chapter_bank :: "string list \<Rightarrow> string \<Rightarrow> question list" where
  "parse_chapter_bank paragraphs chapter_name =
     (let full_text = join [newline] paragraphs;
          matches = re_finditer DOTALL_IGNORECASE q_pattern full_text
      in List.map_filter (\<lambda>m. bank_block chapter_name (group m 2)) matches)"

subsection \<open>main\<close>

text \<open>
  What \<open>main\<close> does with one chapter-bank document: the structured extractor, and the
  universal parser instead when that yields fewer than 5 records.
\<close>

definition chapter_document :: "string list \<Rightarrow> string \<Rightarrow> question list" where
  "chapter_document paragraphs chapter_name =
     (let qs = parse_chapter_bank paragraphs chapter_name in
      if length qs < 5
        then parse_document_universal paragraphs (''Chapter - '' @ chapter_name) chapter_name
      else qs)"

text \<open>The deduplication loop at the end of \<open>main\<close>.\<close>

definition q_hash :: "question \<Rightarrow> string" where
  "q_hash q = strip (lower (take 100 (questionText q)))"

fun dedup_loop :: "string set \<Rightarrow> question list \<Rightarrow> question list \<Rightarrow> question list" where
  "dedup_loop seen unique_questions [] = unique_questions"
| "dedup_loop seen unique_questions (q # qs) =
     (if q_hash q \<notin> seen
        then dedup_loop (insert (q_hash q) seen) (unique_questions @ [q]) qs
      else dedup_loop seen unique_questions qs)"

definition dedup :: "question list \<Rightarrow> question list" where
  "dedup all_questions = dedup_loop {} [] all_questions"

section \<open>parse_all_docs.py\<close>

text \<open>
  Version 1 of the script. Its \<open>clean_text\<close> removes \<^verbatim>\<open>Page:\s*\d+/\d+\<close> (replaced by
  nothing) and its \<open>extract_marks\<close> has the first four shapes only.
\<close>

definition clean_text_v1 :: "string \<Rightarrow> string" where
  "clean_text_v1 text =
     (let text = re_sub no_flags page_marker [] text;
          text = join '' '' (split_ws text)
      in strip text)"

definition extract_marks_v1 :: "string \<Rightarrow> nat option" where
  "extract_marks_v1 text =
     first_marks [marks_bracketed, marks_parenthesized, marks_trailing, marks_bare_bracket] text"

definition detect_question_type_v1 :: "string \<Rightarrow> string list \<Rightarrow> string" where
  "detect_question_type_v1 text opts = detect_with extract_marks_v1 text opts"

subsection \<open>parse_chapter_question_bank\<close>

text \<open>
  \<^verbatim>\<open>^(?:Q\.?\s*)?(\d+)[.\)]\s*(.+)\<close>, \<^verbatim>\<open>^(?:Ans(?:wer)?|Correct\s*Answer)[:\s]+(.+)\<close>
  and \<^verbatim>\<open>\[?\d+\s*(?:mark|marks|m)?\]?$\<close>
\<close>

definition bank_question_start :: regex where
  "bank_question_start =
     seqs [Bol, q_prefix, Grp 1 (Plus (Item D)), Sym (In (chars ''.)'')), Star (Item S),
           Grp 2 (Plus Dot)]"

definition answer_line :: regex where
  "answer_line =
     seqs [Bol,
           Alt (seqs [lit ''Ans'', Opt (lit ''wer'')])
               (seqs [lit ''Correct'', Star (Item S), lit ''Answer'']),
           Plus (In [C CHR '':'', S]), Grp 1 (Plus Dot)]"

definition marks_suffix :: regex where
  "marks_suffix =
     seqs [Opt (lit ''[''), Plus (Item D), Star (Item S), Opt mark_word_m, Opt (lit '']''),
           Eol]"

record bstate =
  b_questions :: "question list"
  b_current_question :: "string option"
  b_current_options :: "string list"
  b_current_answer :: "string option"

definition b_init :: bstate where
  "b_init = \<lparr>b_questions = [], b_current_question = None, b_current_options = [],
             b_current_answer = None\<rparr>"

text \<open>
  The record appended under \<open>if current_question:\<close>, which the source writes out twice
  (at a question start and after the loop).
\<close>

definition b_emit :: "string \<Rightarrow> bstate \<Rightarrow> question list" where
  "b_emit chapter_name st =
     (if truthy_str (b_current_question st) then
        (let cq = the (b_current_question st);
             q_type = detect_question_type_v1 cq (b_current_options st);
             mk = (if truthy_int (extract_marks_v1 cq) then the (extract_marks_v1 cq)
                   else if q_type = ''mcq'' then 1 else 2)
         in b_questions st @
            [\<lparr>questionText = strip (re_sub IGNORECASE marks_suffix [] cq),
              qtype = q_type, marks = mk,
              options = (if b_current_options st \<noteq> [] then Some (b_current_options st)
                         else None),
              correctAnswer = b_current_answer st, q_chapter = chapter_name,
              source = None\<rparr>])
      else b_questions st)"

definition b_step :: "string \<Rightarrow> bstate \<Rightarrow> string \<Rightarrow> bstate" where
  "b_step chapter_name st raw =
     (let line = clean_text_v1 raw in
      if line = [] then st
      else
        (case re_match no_flags bank_question_start line of
           Some q_match \<Rightarrow>
             \<lparr>b_questions = b_emit chapter_name st,
              b_current_question = Some (group q_match 2),
              b_current_options = [], b_current_answer = None\<rparr>
         | None \<Rightarrow>
             (let opt_match = re_match no_flags option_pattern line in
              if opt_match \<noteq> None \<and> truthy_str (b_current_question st) then
                st\<lparr>b_current_options := b_current_options st @
                      [group (the opt_match) 1 @ '') '' @ group (the opt_match) 2]\<rparr>
              else
                (case re_match IGNORECASE answer_line line of
                   Some ans_match \<Rightarrow> st\<lparr>b_current_answer := Some (strip (group ans_match 1))\<rparr>
                 | None \<Rightarrow>
                     if truthy_str (b_current_question st) \<and> line \<noteq> [] then
                       st\<lparr>b_current_question :=
                            Some (the (b_current_question st) @ '' '' @ line)\<rparr>
                     else st))))"

text \<open>The loop over the raw lines and the last question after it.\<close>

definition b_run :: "string \<Rightarrow> string list \<Rightarrow> question list" where
  "b_run chapter_name lines = b_emit chapter_name (foldl (b_step chapter_name) b_init lines)"

definition b_lines :: "string list \<Rightarrow> string list" where
  "b_lines paragraphs = split_on newline (join [newline] paragraphs)"

definition parse_chapter_question_bank :: "string list \<Rightarrow> string \<Rightarrow> question list" where
  "parse_chapter_question_bank paragraphs chapter_name =
     b_run chapter_name (b_lines paragraphs)"

subsection \<open>parse_question_paper\<close>

text \<open>
  \<^verbatim>\<open>^(Section|SECTION|General Instructions|Time|Maximum Marks|CLASS|COMPUTER SCIENCE)\<close>
  and \<^verbatim>\<open>^(\d+)[.\)]\s*(.+)\<close>
\<close>

definition paper_header :: regex where
  "paper_header =
     seqs [Bol,
       Grp 1 (alts (lit ''Section'')
         [lit ''SECTION'', lit ''General Instructions'', lit ''Time'', lit ''Maximum Marks'',
          lit ''CLASS'', lit ''COMPUTER SCIENCE''])]"

definition paper_question_start :: regex where
  "paper_question_start =
     seqs [Bol, Grp 1 (Plus (Item D)), Sym (In (chars ''.)'')), Star (Item S),
           Grp 2 (Plus Dot)]"

record pstate =
  p_questions :: "question list"
  p_current_question :: "string option"
  p_current_options :: "string list"
  p_current_marks :: "nat option"
  in_options :: bool

definition p_init :: pstate where
  "p_init = \<lparr>p_questions = [], p_current_question = None, p_current_options = [],
             p_current_marks = None, in_options = False\<rparr>"

text \<open>
  The record appended under \<open>if current_question and len(current_question) > 10:\<close>,
  written out twice in the source as well.
\<close>

definition p_emit :: "string \<Rightarrow> pstate \<Rightarrow> question list" where
  "p_emit paper_name st =
     (if truthy_str (p_current_question st) \<and> length (the (p_current_question st)) > 10 then
        (let cq = the (p_current_question st);
             q_type = detect_question_type_v1 cq (p_current_options st);
             mk = (if \<not> truthy_int (p_current_marks st)
                   then (if q_type = ''mcq'' then 1 else 2)
                   else the (p_current_marks st))
         in p_questions st @
            [\<lparr>questionText = cq, qtype = q_type, marks = mk,
              options = (if p_current_options st \<noteq> [] then Some (p_current_options st)
                         else None),
              correctAnswer = None, q_chapter = ''Mixed'', source = Some paper_name\<rparr>])
      else p_questions st)"

definition p_step :: "string \<Rightarrow> pstate \<Rightarrow> string \<Rightarrow> pstate" where
  "p_step paper_name st raw =
     (let line = clean_text_v1 raw in
      if line = [] then st
      else if re_match no_flags paper_header line \<noteq> None then st
      else
        (case re_match no_flags paper_question_start line of
           Some q_match \<Rightarrow>
             \<lparr>p_questions = p_emit paper_name st,
              p_current_question = Some (group q_match 2),
              p_current_options = [],
              p_current_marks = extract_marks_v1 line,
              in_options = False\<rparr>
         | None \<Rightarrow>
             (let opt_match = re_match no_flags option_pattern line in
              if opt_match \<noteq> None \<and> truthy_str (p_current_question st) then
                st\<lparr>p_current_options := p_current_options st @
                      [upper (group (the opt_match) 1) @ '') '' @ group (the opt_match) 2],
                    in_options := True\<rparr>
              else if re_match IGNORECASE or_pattern line \<noteq> None then st
              else if truthy_str (p_current_question st) \<and> \<not> in_options st then
                st\<lparr>p_current_question := Some (the (p_current_question st) @ '' '' @ line)\<rparr>
              else st)))"

text \<open>The loop over the raw lines and the last question after it.\<close>

definition p_run :: "string \<Rightarrow> string list \<Rightarrow> question list" where
  "p_run paper_name lines = p_emit paper_name (foldl (p_step paper_name) p_init lines)"

definition p_lines :: "string list \<Rightarrow> string list" where
  "p_lines paragraphs =
     split_on newline (re_sub no_flags page_marker [newline] (join [newline] paragraphs))"

definition parse_question_paper :: "string list \<Rightarrow> string \<Rightarrow> question list" where
  "parse_question_paper paragraphs paper_name = p_run paper_name (p_lines paragraphs)"

section \<open>Well-formed records\<close>

text \<open>
  What every parser guarantees about the options of a record it appends: a present list
  is not empty, and the type is \<open>mcq\<close> exactly when there are at least two options.
\<close>

definition options_ok :: "question \<Rightarrow> bool" where
  "options_ok r =
     (case options r of
        None \<Rightarrow> qtype r \<noteq> ''mcq''
      | Some os \<Rightarrow> os \<noteq> [] \<and> (qtype r = ''mcq'') = (2 \<le> length os))"

section \<open>Evaluation support\<close>

text \<open>
  \<open>lower_char\<close> decided on the bits of the character instead of a walk through
  \<open>case_table\<close>: the table's keys are the characters \<open>0x41-0x5A\<close>, \<open>0xC0-0xD6\<close> and
  \<open>0xD8-0xDE\<close>, and lowering sets bit 5.
\<close>

lemma case_table_keys: "\<forall>k \<in> fst ` set case_table. \<not> digit5 k \<and> digit6 k"
  by (simp add: case_table_def)

lemma lower_char_unmoved:
  assumes "digit5 c \<or> \<not> digit6 c"
  shows "lower_char c = c"
proof -
  have "c \<notin> fst ` set case_table" using assms case_table_keys by blast
  then have "map_of case_table c = None" by (simp add: map_of_eq_None_iff)
  then show ?thesis by (simp add: lower_char_def)
qed

lemma lower_char_ascii:
  "lower_char (Char b0 b1 b2 b3 b4 False True False) =
     (if (\<not> b4 \<and> \<not> b3 \<and> \<not> b2 \<and> \<not> b1 \<and> \<not> b0) \<or> (b4 \<and> b3 \<and> (b2 \<or> (b1 \<and> b0)))
        then Char b0 b1 b2 b3 b4 False True False
      else Char b0 b1 b2 b3 b4 True True False)"
  by (cases b0; cases b1; cases b2; cases b3; cases b4;
      simp add: lower_char_def case_table_def)

lemma lower_char_latin1:
  "lower_char (Char b0 b1 b2 b3 b4 False True True) =
     (if b4 \<and> b2 \<and> b1 \<and> b0 then Char b0 b1 b2 b3 b4 False True True
      else Char b0 b1 b2 b3 b4 True True True)"
  by (cases b0; cases b1; cases b2; cases b3; cases b4;
      simp add: lower_char_def case_table_def)

lemma lower_char_code [code]:
  "lower_char (Char b0 b1 b2 b3 b4 b5 b6 b7) =
     (if b5 \<or> \<not> b6 then Char b0 b1 b2 b3 b4 b5 b6 b7
      else if b7 then
        (if b4 \<and> b2 \<and> b1 \<and> b0 then Char b0 b1 b2 b3 b4 b5 b6 b7
         else Char b0 b1 b2 b3 b4 True b6 b7)
      else if (\<not> b4 \<and> \<not> b3 \<and> \<not> b2 \<and> \<not> b1 \<and> \<not> b0) \<or> (b4 \<and> b3 \<and> (b2 \<or> (b1 \<and> b0)))
        then Char b0 b1 b2 b3 b4 b5 b6 b7
      else Char b0 b1 b2 b3 b4 True b6 b7)"
proof (cases "b5 \<or> \<not> b6")
  case True
  then show ?thesis using lower_char_unmoved [of "Char b0 b1 b2 b3 b4 b5 b6 b7"] by simp
next
  case False
  then have b: "b5 = False" "b6 = True" by auto
  show ?thesis unfolding b using lower_char_ascii lower_char_latin1
    by (cases b7) simp_all
qed

section \<open>Round trip on well-formed input\<close>

text \<open>
  Claim C1. On the four lines \<open>1. What is inheritance? [2]\<close>, \<open>(a) concept one\<close>,
  \<open>(b) concept two\<close>, \<open>2. Explain polymorphism with an example.\<close> the universal parser
  emits exactly two records: the first an \<open>mcq\<close> with text \<open>What is inheritance?\<close>,
  marks 2 and the options \<open>A) concept one\<close>, \<open>B) concept two\<close>; the second a
  \<open>short_answer\<close> with text \<open>Explain polymorphism with an example.\<close> and the default
  marks 2. This holds for every source and chapter label.
\<close>

theorem round_trip_universal:
  "parse_document_universal
     [''1. What is inheritance? [2]'', ''(a) concept one'', ''(b) concept two'',
      ''2. Explain polymorphism with an example.''] source_name chapter_default =
   [\<lparr>questionText = ''What is inheritance?'', qtype = ''mcq'', marks = 2,
      options = Some [''A) concept one'', ''B) concept two''], correctAnswer = None,
      q_chapter = chapter_default, source = Some source_name\<rparr>,
    \<lparr>questionText = ''Explain polymorphism with an example.'', qtype = ''short_answer'',
      marks = 2, options = None, correctAnswer = None,
      q_chapter = chapter_default, source = Some source_name\<rparr>]"
  by code_simp

section \<open>Deduplication\<close>

lemma dedup_loop_acc:
  "dedup_loop seen acc qs = acc @ dedup_loop seen [] qs"
proof (induction qs arbitrary: seen acc)
  case Nil
  show ?case by simp
next
  case (Cons q qs)
  show ?case
  proof (cases "q_hash q \<in> seen")
    case True
    then show ?thesis using Cons.IH [of seen acc] by simp
  next
    case False
    have "dedup_loop (insert (q_hash q) seen) (acc @ [q]) qs =
          (acc @ [q]) @ dedup_loop (insert (q_hash q) seen) [] qs"
      by (rule Cons.IH)
    moreover have "dedup_loop (insert (q_hash q) seen) [q] qs =
          [q] @ dedup_loop (insert (q_hash q) seen) [] qs"
      by (rule Cons.IH)
    ultimately show ?thesis using False by simp
  qed
qed

text \<open>The positions kept when the fingerprints in \<open>seen\<close> have been met already.\<close>

lemma dedup_loop_positions:
  "dedup_loop seen [] qs =
     map ((!) qs)
       (filter (\<lambda>i. q_hash (qs ! i) \<notin> seen \<and> (\<forall>j<i. q_hash (qs ! j) \<noteq> q_hash (qs ! i)))
          [0..<length qs])"
proof (induction qs arbitrary: seen)
  case Nil
  show ?case by simp
next
  case (Cons q qs)
  let ?h = "q_hash q"
  have upt: "[0..<length (q # qs)] = 0 # map Suc [0..<length qs]"
    by (simp add: upt_conv_Cons map_Suc_upt del: upt_Suc)
  have later: "\<And>i. (q_hash (qs ! i) \<notin> seen \<and>
                    (\<forall>j<Suc i. q_hash ((q # qs) ! j) \<noteq> q_hash (qs ! i))) =
               (q_hash (qs ! i) \<noteq> ?h \<and> q_hash (qs ! i) \<notin> seen \<and>
                    (\<forall>j<i. q_hash (qs ! j) \<noteq> q_hash (qs ! i)))"
    by (auto simp add: less_Suc_eq_0_disj)
  have tail: "map ((!) (q # qs))
        (filter (\<lambda>i. q_hash ((q # qs) ! i) \<notin> seen \<and>
                      (\<forall>j<i. q_hash ((q # qs) ! j) \<noteq> q_hash ((q # qs) ! i)))
           (map Suc [0..<length qs])) =
      dedup_loop (insert ?h seen) [] qs"
    unfolding Cons.IH [of "insert ?h seen"] filter_map
    by (simp add: comp_def later)
  show ?case
  proof (cases "?h \<in> seen")
    case True
    then have "insert ?h seen = seen" by auto
    then show ?thesis using True tail unfolding upt by simp
  next
    case False
    have "dedup_loop seen [] (q # qs) = q # dedup_loop (insert ?h seen) [] qs"
      using False dedup_loop_acc [of "insert ?h seen" "[q]" qs] by simp
    then show ?thesis using False tail unfolding upt by simp
  qed
qed

text \<open>
  Claim C2. The fingerprint of a record is the first 100 characters of its
  \<open>questionText\<close>, lower-cased and stripped of surrounding whitespace, and the
  deduplication loop returns exactly the records at the positions where a fingerprint
  occurs for the first time, in their original order: for each fingerprint the first
  record met is kept and every later one is dropped.
\<close>

theorem dedup_keeps_first_occurrences:
  "q_hash q = strip (lower (take 100 (questionText q))) \<and>
   dedup qs =
     map ((!) qs)
       (filter (\<lambda>i. \<forall>j<i. q_hash (qs ! j) \<noteq> q_hash (qs ! i)) [0..<length qs])"
  unfolding dedup_def dedup_loop_positions by (simp add: q_hash_def)

theorem dedup_keeps_first_occurrences_witness:
  "dedup
     [\<lparr>questionText = ''What is a function?'', qtype = ''short_answer'', marks = 2,
        options = None, correctAnswer = None, q_chapter = ''Functions'',
        source = Some ''Chapter - Functions''\<rparr>,
      \<lparr>questionText = ''Define recursion.'', qtype = ''short_answer'', marks = 2,
        options = None, correctAnswer = None, q_chapter = ''Mixed'', source = Some ''Paper''\<rparr>,
      \<lparr>questionText = ''WHAT is a Function? '', qtype = ''long_answer'', marks = 5,
        options = None, correctAnswer = None, q_chapter = ''Mixed'', source = Some ''Paper''\<rparr>] =
     [\<lparr>questionText = ''What is a function?'', qtype = ''short_answer'', marks = 2,
        options = None, correctAnswer = None, q_chapter = ''Functions'',
        source = Some ''Chapter - Functions''\<rparr>,
      \<lparr>questionText = ''Define recursion.'', qtype = ''short_answer'', marks = 2,
        options = None, correctAnswer = None, q_chapter = ''Mixed'', source = Some ''Paper''\<rparr>]"
proof -
  let ?a = "\<lparr>questionText = ''What is a function?'', qtype = ''short_answer'', marks = 2,
        options = None, correctAnswer = None, q_chapter = ''Functions'',
        source = Some ''Chapter - Functions''\<rparr>"
  let ?b = "\<lparr>questionText = ''Define recursion.'', qtype = ''short_answer'', marks = 2,
        options = None, correctAnswer = None, q_chapter = ''Mixed'', source = Some ''Paper''\<rparr>"
  let ?c = "\<lparr>questionText = ''WHAT is a Function? '', qtype = ''long_answer'', marks = 5,
        options = None, correctAnswer = None, q_chapter = ''Mixed'', source = Some ''Paper''\<rparr>"
  have ab: "q_hash ?a \<noteq> q_hash ?b" by code_simp
  have ca: "q_hash ?c = q_hash ?a" by code_simp
  have sel: "\<And>a b c :: question. q_hash a \<noteq> q_hash b \<Longrightarrow> q_hash c = q_hash a \<Longrightarrow>
      map ((!) [a, b, c])
        (filter (\<lambda>i. \<forall>j<i. q_hash ([a, b, c] ! j) \<noteq> q_hash ([a, b, c] ! i))
           [0..<length [a, b, c]]) = [a, b]"
  proof -
    fix a b c :: question
    assume d: "q_hash a \<noteq> q_hash b" and e: "q_hash c = q_hash a"
    have u: "[0..<length [a, b, c]] = [0, Suc 0, Suc (Suc 0)]"
      by (simp add: upt_rec)
    show "map ((!) [a, b, c])
        (filter (\<lambda>i. \<forall>j<i. q_hash ([a, b, c] ! j) \<noteq> q_hash ([a, b, c] ! i))
           [0..<length [a, b, c]]) = [a, b]"
      unfolding u using d e by (auto simp add: less_Suc_eq)
  qed
  show ?thesis
    using dedup_keeps_first_occurrences [of ?a "[?a, ?b, ?c]"] sel [OF ab ca] by simp
qed

section \<open>Type classification\<close>

text \<open>
  Claim C3. Whenever the option list has at least two entries, the type classifier of
  either version of the script returns \<open>mcq\<close>, whatever the text contains (keywords
  or mark annotations).
\<close>

theorem option_dominance:
  "2 \<le> length opts \<Longrightarrow>
     detect_question_type text opts = ''mcq'' \<and> detect_question_type_v1 text opts = ''mcq''"
  by (auto simp add: detect_question_type_def detect_question_type_v1_def detect_with_def Let_def)

theorem option_dominance_witness:
  "2 \<le> length [''A) True'', ''B) False'', ''C) Both'', ''D) Neither''] \<and>
   detect_question_type ''State true or false: fill in the assertion and reason [5 marks]''
     [''A) True'', ''B) False'', ''C) Both'', ''D) Neither''] = ''mcq'' \<and>
   detect_question_type_v1 ''State true or false: fill in the assertion and reason [5 marks]''
     [''A) True'', ''B) False'', ''C) Both'', ''D) Neither''] = ''mcq''"
  using option_dominance [of "[''A) True'', ''B) False'', ''C) Both'', ''D) Neither'']"
      "''State true or false: fill in the assertion and reason [5 marks]''"]
  by simp

section \<open>Chapter bank with an inline answer\<close>

text \<open>
  End to end, \<open>main\<close> runs the structured extractor on a chapter document and replaces
  its result by the universal parser's when it has fewer than 5 records. A document with
  the single question of the claim therefore ends with the universal parser's record,
  which carries no answer.
\<close>

theorem chapter_bank_inline_answer_counterexample:
  "chapter_document
     [''1. What is a lambda function? Ans: A function defined with no name.''] ''Functions'' =
   [\<lparr>questionText = ''What is a lambda function? Ans: A function defined with no name.'',
      qtype = ''short_answer'', marks = 2, options = None, correctAnswer = None,
      q_chapter = ''Functions'', source = Some ''Chapter - Functions''\<rparr>]"
  by code_simp

text \<open>
  Claim C5, amended. On the text
  \<open>1. What is a lambda function? Ans: A function defined with no name.\<close> the structured
  extractor \<open>parse_chapter_bank\<close> alone yields exactly one record, with
  \<open>correctAnswer\<close> \<open>A function defined with no name.\<close> and \<open>questionText\<close>
  \<open>What is a lambda function?\<close>. The strategy selector of \<open>main\<close> does not keep it: one
  record is fewer than 5, so the chapter document is parsed again by the universal
  parser, whose single record has no \<open>correctAnswer\<close> and the whole text after the
  numbering as \<open>questionText\<close>.
\<close>

theorem chapter_bank_inline_answer:
  "parse_chapter_bank
     [''1. What is a lambda function? Ans: A function defined with no name.''] chapter_name =
   [\<lparr>questionText = ''What is a lambda function?'', qtype = ''short_answer'', marks = 2,
      options = None, correctAnswer = Some ''A function defined with no name.'',
      q_chapter = chapter_name, source = Some (''Chapter Bank - '' @ chapter_name)\<rparr>] \<and>
   chapter_document
     [''1. What is a lambda function? Ans: A function defined with no name.''] chapter_name =
   [\<lparr>questionText = ''What is a lambda function? Ans: A function defined with no name.'',
      qtype = ''short_answer'', marks = 2, options = None, correctAnswer = None,
      q_chapter = chapter_name, source = Some (''Chapter - '' @ chapter_name)\<rparr>]"
  by code_simp

section \<open>The label form of a mark annotation\<close>






section \<open>Normalisation\<close>

lemma sub_from_no_match:
  "search_from f r i s = None \<Longrightarrow> sub_from f r repl i s = s"
  by (induction s arbitrary: i) (auto split: option.splits)

lemma re_sub_no_match:
  "re_search f r s = None \<Longrightarrow> re_sub f r repl s = s"
  by (simp add: re_search_def re_sub_def sub_from_no_match)

lemma is_space_blank: "is_space CHR '' ''"
  by (simp add: is_space_def)

lemma split_ws_empty: "dropWhile is_space s = [] \<Longrightarrow> split_ws s = []"
  by (subst split_ws.simps) (simp add: Let_def)

lemma split_ws_unfold:
  "dropWhile is_space s \<noteq> [] \<Longrightarrow>
     split_ws s =
       takeWhile (\<lambda>c. \<not> is_space c) (dropWhile is_space s) #
       split_ws (dropWhile (\<lambda>c. \<not> is_space c) (dropWhile is_space s))"
  by (subst split_ws.simps) (simp add: Let_def)

lemma split_ws_words:
  "w \<in> set (split_ws s) \<Longrightarrow> w \<noteq> [] \<and> (\<forall>c \<in> set w. \<not> is_space c)"
proof (induction s arbitrary: w rule: length_induct)
  case (1 s)
  let ?t = "dropWhile is_space s"
  let ?u = "dropWhile (\<lambda>c. \<not> is_space c) ?t"
  show ?case
  proof (cases "?t = []")
    case True
    then show ?thesis using "1.prems" split_ws_empty [OF True] by simp
  next
    case False
    note ne = False
    have hd: "\<not> is_space (hd ?t)" using ne by (rule hd_dropWhile)
    have shorter: "length ?u < length s"
    proof -
      obtain a l where al: "?t = a # l" using ne by (cases ?t) auto
      have "\<not> is_space a" using hd al by simp
      then have "?u = dropWhile (\<lambda>c. \<not> is_space c) l" using al by simp
      moreover have "length (dropWhile (\<lambda>c. \<not> is_space c) l) \<le> length l"
        by (rule length_dropWhile_le)
      moreover have "length ?t \<le> length s" by (rule length_dropWhile_le)
      ultimately show ?thesis using al by simp
    qed
    have mem: "w = takeWhile (\<lambda>c. \<not> is_space c) ?t \<or> w \<in> set (split_ws ?u)"
      using "1.prems" split_ws_unfold [OF ne] by simp
    show ?thesis
    proof (cases "w = takeWhile (\<lambda>c. \<not> is_space c) ?t")
      case True
      have "w \<noteq> []" using True ne hd by (simp add: takeWhile_eq_Nil_iff)
      moreover have "\<forall>c \<in> set w. \<not> is_space c"
        using True by (auto dest: set_takeWhileD)
      ultimately show ?thesis by simp
    next
      case False
      then have "w \<in> set (split_ws ?u)" using mem by simp
      then show ?thesis using "1.IH" shorter by blast
    qed
  qed
qed

lemma split_ws_Nil: "split_ws [] = []"
  by (simp add: split_ws_empty)

lemma split_ws_space: "is_space c \<Longrightarrow> split_ws (c # s) = split_ws s"
proof (cases "dropWhile is_space s = []")
  case True
  assume "is_space c"
  then show ?thesis using True by (simp add: split_ws_empty)
next
  case False
  assume c: "is_space c"
  then have "dropWhile is_space (c # s) = dropWhile is_space s" by simp
  then show ?thesis using False split_ws_unfold [of "c # s"] split_ws_unfold [of s] by simp
qed

lemma split_ws_word_then_space:
  assumes "w \<noteq> []" and "\<forall>c \<in> set w. \<not> is_space c" and "is_space d"
  shows "split_ws (w @ d # s) = w # split_ws s"
proof -
  have hd: "\<not> is_space (hd (w @ d # s))" using assms(1,2) by (cases w) auto
  then have d1: "dropWhile is_space (w @ d # s) = w @ d # s"
    by (simp add: dropWhile_eq_self_iff)
  have t: "takeWhile (\<lambda>c. \<not> is_space c) (w @ d # s) = w"
    using assms(2,3) by (simp add: takeWhile_append2)
  have d2: "dropWhile (\<lambda>c. \<not> is_space c) (w @ d # s) = d # s"
    using assms(2,3) by (simp add: dropWhile_append2)
  have "split_ws (w @ d # s) = w # split_ws (d # s)"
    using assms(1) split_ws_unfold [of "w @ d # s"] by (simp add: d1 t d2)
  then show ?thesis using assms(3) by (simp add: split_ws_space)
qed

lemma split_ws_one_word:
  assumes "w \<noteq> []" and "\<forall>c \<in> set w. \<not> is_space c"
  shows "split_ws w = [w]"
proof -
  have hd: "\<not> is_space (hd w)" using assms by (cases w) auto
  then have d1: "dropWhile is_space w = w" by (simp add: dropWhile_eq_self_iff)
  have t: "takeWhile (\<lambda>c. \<not> is_space c) w = w"
    using assms(2) by (simp add: takeWhile_eq_all_conv)
  have d2: "dropWhile (\<lambda>c. \<not> is_space c) w = []"
    using assms(2) by simp
  show ?thesis
    using assms(1) split_ws_unfold [of w] by (simp add: d1 t d2 split_ws_Nil)
qed

lemma split_ws_join:
  "\<forall>w \<in> set ws. w \<noteq> [] \<and> (\<forall>c \<in> set w. \<not> is_space c) \<Longrightarrow>
     split_ws (join '' '' ws) = ws"
proof (induction ws)
  case Nil
  show ?case by (simp add: split_ws_Nil)
next
  case (Cons x ws)
  show ?case
  proof (cases ws)
    case Nil
    then show ?thesis using Cons.prems by (simp add: split_ws_one_word)
  next
    case (Cons y ys)
    have "split_ws (x @ CHR '' '' # join '' '' (y # ys)) = x # split_ws (join '' '' (y # ys))"
      using Cons.prems by (intro split_ws_word_then_space) (simp_all add: is_space_blank)
    then show ?thesis using Cons Cons.IH Cons.prems by simp
  qed
qed

lemma join_ends:
  "ws \<noteq> [] \<Longrightarrow> \<forall>w \<in> set ws. w \<noteq> [] \<Longrightarrow>
     join '' '' ws \<noteq> [] \<and> hd (join '' '' ws) = hd (hd ws) \<and>
     last (join '' '' ws) = last (last ws)"
proof (induction ws)
  case Nil
  then show ?case by simp
next
  case (Cons x ws)
  show ?case
  proof (cases ws)
    case Nil
    then show ?thesis using Cons.prems by simp
  next
    case (Cons y ys)
    then show ?thesis using Cons.IH Cons.prems by (cases x) auto
  qed
qed

lemma strip_fixed:
  "s = [] \<or> (\<not> is_space (hd s) \<and> \<not> is_space (last s)) \<Longrightarrow> strip s = s"
proof (cases "s = []")
  case True
  then show ?thesis by (simp add: strip_def)
next
  case False
  assume "s = [] \<or> (\<not> is_space (hd s) \<and> \<not> is_space (last s))"
  then have h: "\<not> is_space (hd s)" and l: "\<not> is_space (last s)" using False by auto
  have "dropWhile is_space s = s" using h by (simp add: dropWhile_eq_self_iff)
  moreover have "dropWhile is_space (rev s) = rev s"
    using l False by (simp add: dropWhile_eq_self_iff hd_rev)
  ultimately show ?thesis by (simp add: strip_def)
qed

lemma strip_join:
  assumes "\<forall>w \<in> set ws. w \<noteq> [] \<and> (\<forall>c \<in> set w. \<not> is_space c)"
  shows "strip (join '' '' ws) = join '' '' ws"
proof (cases "ws = []")
  case True
  then show ?thesis by (simp add: strip_def)
next
  case False
  then have e: "join '' '' ws \<noteq> []" "hd (join '' '' ws) = hd (hd ws)"
      "last (join '' '' ws) = last (last ws)"
    using join_ends assms by auto
  have "hd ws \<in> set ws" "last ws \<in> set ws" using False by auto
  then have "\<not> is_space (hd (hd ws))" "\<not> is_space (last (last ws))"
    using assms by (metis hd_in_set, metis last_in_set)
  then show ?thesis using e by (intro strip_fixed) simp
qed

text \<open>The whitespace step of \<open>clean_text\<close> applied to its own result changes nothing.\<close>

lemma normalise_twice:
  "strip (join '' '' (split_ws (strip (join '' '' (split_ws t))))) =
   strip (join '' '' (split_ws t))"
proof -
  have w: "\<forall>w \<in> set (split_ws t). w \<noteq> [] \<and> (\<forall>c \<in> set w. \<not> is_space c)"
    using split_ws_words by blast
  show ?thesis by (simp add: strip_join [OF w] split_ws_join [OF w])
qed

text \<open>
  Cleaning a cleaned string can change it: removing one page marker can bring the
  pieces of another one together.
\<close>

theorem clean_text_idempotent_counterexample:
  "clean_text ''Page:Page: 1/2 3/4'' = ''Page: 3/4'' \<and>
   clean_text (clean_text ''Page:Page: 1/2 3/4'') = [] \<and>
   clean_text_v1 ''Page:Page: 1/2 3/4'' = ''Page: 3/4'' \<and>
   clean_text_v1 (clean_text_v1 ''Page:Page: 1/2 3/4'') = []"
  by code_simp

text \<open>
  Claim C6, amended. For every string whose cleaned form contains no page marker
  (neither \<open>Page: n/m\<close> nor \<open>Page n of m\<close> is found in \<open>clean_text s\<close>; for version 1,
  \<open>Page: n/m\<close> is not found in its \<open>clean_text s\<close>), cleaning the cleaned form returns
  it unchanged.
\<close>

theorem clean_text_idempotent:
  "(re_search no_flags page_marker (clean_text s) = None \<and>
    re_search no_flags page_of_marker (clean_text s) = None \<longrightarrow>
      clean_text (clean_text s) = clean_text s) \<and>
   (re_search no_flags page_marker (clean_text_v1 s) = None \<longrightarrow>
      clean_text_v1 (clean_text_v1 s) = clean_text_v1 s)"
proof (intro conjI impI)
  assume a: "re_search no_flags page_marker (clean_text s) = None \<and>
             re_search no_flags page_of_marker (clean_text s) = None"
  obtain t where t: "clean_text s = strip (join '' '' (split_ws t))"
    by (simp add: clean_text_def Let_def)
  have "clean_text (clean_text s) = strip (join '' '' (split_ws (clean_text s)))"
    using a by (simp add: clean_text_def [of "clean_text s"] Let_def re_sub_no_match)
  then show "clean_text (clean_text s) = clean_text s"
    unfolding t by (simp add: normalise_twice)
next
  assume a: "re_search no_flags page_marker (clean_text_v1 s) = None"
  obtain t where t: "clean_text_v1 s = strip (join '' '' (split_ws t))"
    by (simp add: clean_text_v1_def Let_def)
  have "clean_text_v1 (clean_text_v1 s) = strip (join '' '' (split_ws (clean_text_v1 s)))"
    using a by (simp add: clean_text_v1_def [of "clean_text_v1 s"] Let_def re_sub_no_match)
  then show "clean_text_v1 (clean_text_v1 s) = clean_text_v1 s"
    unfolding t by (simp add: normalise_twice)
qed

theorem clean_text_idempotent_witness:
  "re_search no_flags page_marker (clean_text ''  Q1.  What   is Page: 3/7 this? '') = None \<and>
   re_search no_flags page_of_marker (clean_text ''  Q1.  What   is Page: 3/7 this? '') = None \<and>
   re_search no_flags page_marker (clean_text_v1 ''  Q1.  What   is Page: 3/7 this? '') = None \<and>
   clean_text ''  Q1.  What   is Page: 3/7 this? '' = ''Q1. What is this?'' \<and>
   clean_text (clean_text ''  Q1.  What   is Page: 3/7 this? '') =
     clean_text ''  Q1.  What   is Page: 3/7 this? '' \<and>
   clean_text_v1 (clean_text_v1 ''  Q1.  What   is Page: 3/7 this? '') =
     clean_text_v1 ''  Q1.  What   is Page: 3/7 this? ''"
proof -
  let ?s = "''  Q1.  What   is Page: 3/7 this? ''"
  have c: "clean_text ?s = ''Q1. What is this?''" by code_simp
  have a: "re_search no_flags page_marker (clean_text ?s) = None" by code_simp
  have b: "re_search no_flags page_of_marker (clean_text ?s) = None" by code_simp
  have d: "re_search no_flags page_marker (clean_text_v1 ?s) = None" by code_simp
  show ?thesis using a b c d clean_text_idempotent [of ?s] by simp
qed

section \<open>Minimum-length thresholds\<close>

text \<open>
  The simple-paper parser keeps a candidate of 12 characters (its threshold is 10, not
  15), and the chapter-bank parser of version 1 keeps one of 2 characters (it has no
  threshold).
\<close>

theorem min_length_thresholds_counterexample:
  "length ''Define a set'' = 12 \<and>
   parse_question_paper [''1. Define a set''] ''Paper'' =
     [\<lparr>questionText = ''Define a set'', qtype = ''short_answer'', marks = 2,
        options = None, correctAnswer = None, q_chapter = ''Mixed'',
        source = Some ''Paper''\<rparr>] \<and>
   parse_chapter_question_bank [''1. Hi''] ''Functions'' =
     [\<lparr>questionText = ''Hi'', qtype = ''short_answer'', marks = 2,
        options = None, correctAnswer = None, q_chapter = ''Functions'',
        source = None\<rparr>]"
  by code_simp

text \<open>
  Claim C4, amended. On finalize, the universal strategy discards a candidate whose
  text (the buffer joined, trailing mark annotations stripped) has length at most 15
  and emits it above 15; the simple-paper strategy discards a candidate whose
  accumulated body has length at most 10 and emits it above 10; the chapter-bank
  line-based strategy has no length threshold and emits every open candidate.
\<close>

theorem min_length_thresholds:
  "(question_buffer st \<noteq> [] \<longrightarrow>
      (length (final_text (question_buffer st)) \<le> 15 \<longrightarrow>
         questions (save_current_question source_name chapter_default st) = questions st) \<and>
      (15 < length (final_text (question_buffer st)) \<longrightarrow>
         (\<exists>r. questions (save_current_question source_name chapter_default st) =
                questions st @ [r] \<and>
              questionText r = final_text (question_buffer st)))) \<and>
   (p_current_question pst = Some body \<and> body \<noteq> [] \<longrightarrow>
      (length body \<le> 10 \<longrightarrow> p_emit paper_name pst = p_questions pst) \<and>
      (10 < length body \<longrightarrow>
         (\<exists>r. p_emit paper_name pst = p_questions pst @ [r] \<and> questionText r = body))) \<and>
   (b_current_question bst = Some body' \<and> body' \<noteq> [] \<longrightarrow>
      (\<exists>r. b_emit chapter_name bst = b_questions bst @ [r] \<and>
           questionText r = strip (re_sub IGNORECASE marks_suffix [] body')))"
  by (simp add: save_current_question_def p_emit_def b_emit_def Let_def)

theorem min_length_thresholds_witness:
  "question_buffer (u_init\<lparr>question_buffer := [''Short one [2]'']\<rparr>) \<noteq> [] \<and>
   length (final_text (question_buffer (u_init\<lparr>question_buffer := [''Short one [2]'']\<rparr>))) \<le> 15 \<and>
   questions (save_current_question ''Paper'' ''Mixed''
      (u_init\<lparr>question_buffer := [''Short one [2]'']\<rparr>)) =
     questions (u_init\<lparr>question_buffer := [''Short one [2]'']\<rparr>) \<and>
   p_current_question (p_init\<lparr>p_current_question := Some ''Define set''\<rparr>) = Some ''Define set'' \<and>
   length ''Define set'' \<le> 10 \<and>
   p_emit ''Paper'' (p_init\<lparr>p_current_question := Some ''Define set''\<rparr>) =
     p_questions (p_init\<lparr>p_current_question := Some ''Define set''\<rparr>) \<and>
   b_current_question (b_init\<lparr>b_current_question := Some ''Hi''\<rparr>) = Some ''Hi'' \<and>
   (\<exists>r. b_emit ''Functions'' (b_init\<lparr>b_current_question := Some ''Hi''\<rparr>) =
          b_questions (b_init\<lparr>b_current_question := Some ''Hi''\<rparr>) @ [r] \<and>
        questionText r = strip (re_sub IGNORECASE marks_suffix [] ''Hi''))"
proof -
  let ?U = "u_init\<lparr>question_buffer := [''Short one [2]'']\<rparr>"
  let ?P = "p_init\<lparr>p_current_question := Some ''Define set''\<rparr>"
  let ?B = "b_init\<lparr>b_current_question := Some ''Hi''\<rparr>"
  have u1: "question_buffer ?U \<noteq> []" by simp
  have u2: "length (final_text (question_buffer ?U)) \<le> 15" by code_simp
  have p1: "p_current_question ?P = Some ''Define set'' \<and> ''Define set'' \<noteq> []" by simp
  have p2: "length ''Define set'' \<le> 10" by simp
  have b1: "b_current_question ?B = Some ''Hi'' \<and> ''Hi'' \<noteq> []" by simp
  note t = min_length_thresholds [of ?U "''Paper''" "''Mixed''" ?P "''Define set''" "''Paper''"
      ?B "''Hi''" "''Functions''"]
  show ?thesis using t u1 u2 p1 p2 b1 by blast
qed

section \<open>Header lines\<close>

text \<open>
  The chapter-bank parser of version 1 has no header test: the line is appended to the
  body of the open question.
\<close>

theorem header_skip_counterexample:
  "parse_chapter_question_bank
     [''1. What is a function?'', ''Section A: General Instructions''] ''Functions'' =
   [\<lparr>questionText = ''What is a function? Section A: General Instructions'',
      qtype = ''short_answer'', marks = 2, options = None, correctAnswer = None,
      q_chapter = ''Functions'', source = None\<rparr>]"
  by code_simp

text \<open>
  Claim C8, amended. In the universal strategy and in the simple-paper strategy, a
  line that matches the strategy's own header pattern (for both, the line
  \<open>Section A: General Instructions\<close>) leaves the parser state as it is, at a question
  start and during accumulation alike: the records of the lines with it are the
  records of the lines without it. The chapter-bank line-based strategy has no header
  pattern; there such a line is appended to the body of the open question.
\<close>

theorem header_skip:
  "(re_match IGNORECASE header_pattern line \<noteq> None \<longrightarrow>
      u_step source_name chapter_default st line = st \<and>
      u_run source_name chapter_default (xs @ line # ys) =
        u_run source_name chapter_default (xs @ ys)) \<and>
   (re_match no_flags paper_header (clean_text_v1 raw) \<noteq> None \<longrightarrow>
      p_step paper_name pst raw = pst \<and>
      p_run paper_name (xs' @ raw # ys') = p_run paper_name (xs' @ ys'))"
proof (intro conjI impI)
  assume h: "re_match IGNORECASE header_pattern line \<noteq> None"
  then have step: "\<And>s. u_step source_name chapter_default s line = s"
    by (simp add: u_step_def)
  then show "u_step source_name chapter_default st line = st" by simp
  show "u_run source_name chapter_default (xs @ line # ys) =
        u_run source_name chapter_default (xs @ ys)"
    by (simp add: u_run_def u_loop_def step)
next
  assume h: "re_match no_flags paper_header (clean_text_v1 raw) \<noteq> None"
  then have step: "\<And>s. p_step paper_name s raw = s"
    by (simp add: p_step_def Let_def)
  then show "p_step paper_name pst raw = pst" by simp
  show "p_run paper_name (xs' @ raw # ys') = p_run paper_name (xs' @ ys')"
    by (simp add: p_run_def step)
qed

theorem header_skip_witness:
  "re_match IGNORECASE header_pattern ''Section A: General Instructions'' \<noteq> None \<and>
   re_match no_flags paper_header (clean_text_v1 ''Section A: General Instructions'') \<noteq> None \<and>
   u_step ''Paper'' ''Mixed'' u_init ''Section A: General Instructions'' = u_init \<and>
   u_run ''Paper'' ''Mixed''
     ([''1. What is a function?''] @ ''Section A: General Instructions'' # [''in Python'']) =
   u_run ''Paper'' ''Mixed'' ([''1. What is a function?''] @ [''in Python'']) \<and>
   p_step ''Paper'' p_init ''Section A: General Instructions'' = p_init \<and>
   p_run ''Paper''
     ([''1. What is a function?''] @ ''Section A: General Instructions'' # [''in Python'']) =
   p_run ''Paper'' ([''1. What is a function?''] @ [''in Python''])"
proof -
  have a: "re_match IGNORECASE header_pattern ''Section A: General Instructions'' \<noteq> None"
    by code_simp
  have b: "re_match no_flags paper_header (clean_text_v1 ''Section A: General Instructions'') \<noteq> None"
    by code_simp
  note t = header_skip [of "''Section A: General Instructions''" "''Paper''" "''Mixed''" u_init
      "[''1. What is a function?'']" "[''in Python'']" "''Section A: General Instructions''"
      "''Paper''" p_init "[''1. What is a function?'']" "[''in Python'']"]
  show ?thesis using t a b by blast
qed

section \<open>Documents without a question boundary\<close>

lemma u_step_idle:
  "first_boundary q_patterns l = None \<Longrightarrow> question_buffer st = [] \<Longrightarrow>
     \<not> truthy_str (current_q_num st) \<Longrightarrow> u_step source_name chapter_default st l = st"
  by (simp add: u_step_def Let_def)

lemma u_loop_idle:
  "\<forall>l \<in> set pre. first_boundary q_patterns l = None \<Longrightarrow> question_buffer st = [] \<Longrightarrow>
     \<not> truthy_str (current_q_num st) \<Longrightarrow> u_loop source_name chapter_default st pre = st"
  by (induction pre) (simp_all add: u_loop_def u_step_idle)

lemma u_run_prefix:
  assumes "\<forall>l \<in> set pre. first_boundary q_patterns l = None"
  shows "u_run source_name chapter_default (pre @ rest) = u_run source_name chapter_default rest"
proof -
  have "u_loop source_name chapter_default u_init pre = u_init"
    using assms by (intro u_loop_idle) (simp_all add: u_init_def)
  then show ?thesis by (simp add: u_run_def u_loop_def)
qed

lemma u_run_Nil: "u_run source_name chapter_default [] = []"
  by (simp add: u_run_def u_loop_def save_current_question_def u_init_def)

lemma p_step_idle:
  "re_match no_flags paper_question_start (clean_text_v1 raw) = None \<Longrightarrow>
     \<not> truthy_str (p_current_question st) \<Longrightarrow> p_step paper_name st raw = st"
  by (simp add: p_step_def Let_def)

lemma p_loop_idle:
  "\<forall>l \<in> set pre. re_match no_flags paper_question_start (clean_text_v1 l) = None \<Longrightarrow>
     \<not> truthy_str (p_current_question st) \<Longrightarrow> foldl (p_step paper_name) st pre = st"
  by (induction pre) (simp_all add: p_step_idle)

lemma p_run_prefix:
  assumes "\<forall>l \<in> set pre. re_match no_flags paper_question_start (clean_text_v1 l) = None"
  shows "p_run paper_name (pre @ rest) = p_run paper_name rest"
proof -
  have "foldl (p_step paper_name) p_init pre = p_init"
    using assms by (intro p_loop_idle) (simp_all add: p_init_def)
  then show ?thesis by (simp add: p_run_def)
qed

lemma p_run_Nil: "p_run paper_name [] = []"
  by (simp add: p_run_def p_emit_def p_init_def)

text \<open>
  Before the first boundary the chapter-bank parser of version 1 can only record an
  answer, and a recorded answer is dropped at the next question start.
\<close>

lemma b_step_idle:
  "re_match no_flags bank_question_start (clean_text_v1 raw) = None \<Longrightarrow>
     \<not> truthy_str (b_current_question st) \<Longrightarrow>
     \<exists>a. b_step chapter_name st raw = st\<lparr>b_current_answer := a\<rparr>"
proof -
  assume nb: "re_match no_flags bank_question_start (clean_text_v1 raw) = None"
    and nq: "\<not> truthy_str (b_current_question st)"
  have same: "st = st\<lparr>b_current_answer := b_current_answer st\<rparr>" by simp
  show ?thesis
  proof (cases "b_step chapter_name st raw = st")
    case True
    then show ?thesis using same by metis
  next
    case False
    then show ?thesis using nb nq
      by (auto simp add: b_step_def Let_def split: option.splits if_splits)
  qed
qed

lemma b_loop_idle:
  "\<forall>l \<in> set pre. re_match no_flags bank_question_start (clean_text_v1 l) = None \<Longrightarrow>
     \<not> truthy_str (b_current_question st) \<Longrightarrow>
     \<exists>a. foldl (b_step chapter_name) st pre = st\<lparr>b_current_answer := a\<rparr>"
proof (induction pre arbitrary: st)
  case Nil
  have "st = st\<lparr>b_current_answer := b_current_answer st\<rparr>" by simp
  then show ?case by (metis foldl_Nil)
next
  case (Cons l pre)
  obtain a where a: "b_step chapter_name st l = st\<lparr>b_current_answer := a\<rparr>"
    using b_step_idle Cons.prems by (metis list.set_intros(1))
  have "\<not> truthy_str (b_current_question (st\<lparr>b_current_answer := a\<rparr>))"
    using Cons.prems by simp
  then obtain a' where
    "foldl (b_step chapter_name) (st\<lparr>b_current_answer := a\<rparr>) pre =
       st\<lparr>b_current_answer := a\<rparr>\<lparr>b_current_answer := a'\<rparr>"
    using Cons.IH [of "st\<lparr>b_current_answer := a\<rparr>"] Cons.prems by auto
  then show ?case using a by auto
qed

lemma b_emit_no_question:
  "\<not> truthy_str (b_current_question st) \<Longrightarrow> b_emit chapter_name st = b_questions st"
  by (simp add: b_emit_def)

lemma b_step_answer:
  assumes "\<not> truthy_str (b_current_question st)"
  shows "b_step chapter_name (st\<lparr>b_current_answer := a\<rparr>) raw = b_step chapter_name st raw \<or>
         (b_step chapter_name st raw = st \<and>
          b_step chapter_name (st\<lparr>b_current_answer := a\<rparr>) raw = st\<lparr>b_current_answer := a\<rparr>)"
  using assms
  by (auto simp add: b_step_def Let_def b_emit_no_question split: option.splits)

lemma b_answer_irrelevant:
  "\<not> truthy_str (b_current_question st) \<Longrightarrow>
     b_emit chapter_name (foldl (b_step chapter_name) (st\<lparr>b_current_answer := a\<rparr>) ls) =
     b_emit chapter_name (foldl (b_step chapter_name) st ls)"
proof (induction ls arbitrary: st)
  case Nil
  then show ?case by (simp add: b_emit_no_question)
next
  case (Cons l ls)
  from b_step_answer [OF Cons.prems, of chapter_name a l]
  show ?case
  proof
    assume "b_step chapter_name (st\<lparr>b_current_answer := a\<rparr>) l = b_step chapter_name st l"
    then show ?thesis by simp
  next
    assume "b_step chapter_name st l = st \<and>
      b_step chapter_name (st\<lparr>b_current_answer := a\<rparr>) l = st\<lparr>b_current_answer := a\<rparr>"
    then show ?thesis using Cons.IH [OF Cons.prems] by simp
  qed
qed

lemma b_run_prefix:
  assumes "\<forall>l \<in> set pre. re_match no_flags bank_question_start (clean_text_v1 l) = None"
  shows "b_run chapter_name (pre @ rest) = b_run chapter_name rest"
proof -
  have nq: "\<not> truthy_str (b_current_question b_init)" by (simp add: b_init_def)
  obtain a where "foldl (b_step chapter_name) b_init pre = b_init\<lparr>b_current_answer := a\<rparr>"
    using b_loop_idle [OF assms nq] by blast
  then show ?thesis using b_answer_irrelevant [OF nq] by (simp add: b_run_def)
qed

lemma b_run_Nil: "b_run chapter_name [] = []"
  by (simp add: b_run_def b_emit_def b_init_def)

text \<open>
  Claim C10. In each line-based strategy (universal, simple paper, chapter bank line
  by line), lines that match none of the strategy's boundary patterns and come before
  the first boundary leave no trace: the records of \<open>pre @ rest\<close> are the records of
  \<open>rest\<close>. In particular a document none of whose lines matches a boundary pattern
  gives no record at all, whatever option-shaped lines, answer lines or prose it has.
\<close>

theorem no_boundary_no_records:
  "((\<forall>l \<in> set pre. first_boundary q_patterns l = None) \<longrightarrow>
      u_run source_name chapter_default pre = [] \<and>
      u_run source_name chapter_default (pre @ rest) = u_run source_name chapter_default rest) \<and>
   ((\<forall>l \<in> set (u_lines paragraphs). first_boundary q_patterns l = None) \<longrightarrow>
      parse_document_universal paragraphs source_name chapter_default = []) \<and>
   ((\<forall>l \<in> set pre. re_match no_flags paper_question_start (clean_text_v1 l) = None) \<longrightarrow>
      p_run paper_name pre = [] \<and>
      p_run paper_name (pre @ rest) = p_run paper_name rest) \<and>
   ((\<forall>l \<in> set (p_lines paragraphs).
        re_match no_flags paper_question_start (clean_text_v1 l) = None) \<longrightarrow>
      parse_question_paper paragraphs paper_name = []) \<and>
   ((\<forall>l \<in> set pre. re_match no_flags bank_question_start (clean_text_v1 l) = None) \<longrightarrow>
      b_run chapter_name pre = [] \<and>
      b_run chapter_name (pre @ rest) = b_run chapter_name rest) \<and>
   ((\<forall>l \<in> set (b_lines paragraphs).
        re_match no_flags bank_question_start (clean_text_v1 l) = None) \<longrightarrow>
      parse_chapter_question_bank paragraphs chapter_name = [])"
proof -
  have u: "\<And>ls. \<forall>l \<in> set ls. first_boundary q_patterns l = None \<Longrightarrow>
      u_run source_name chapter_default ls = []"
    using u_run_prefix [of _ source_name chapter_default "[]"] by (simp add: u_run_Nil)
  have p: "\<And>ls. \<forall>l \<in> set ls. re_match no_flags paper_question_start (clean_text_v1 l) = None \<Longrightarrow>
      p_run paper_name ls = []"
    using p_run_prefix [of _ paper_name "[]"] by (simp add: p_run_Nil)
  have b: "\<And>ls. \<forall>l \<in> set ls. re_match no_flags bank_question_start (clean_text_v1 l) = None \<Longrightarrow>
      b_run chapter_name ls = []"
    using b_run_prefix [of _ chapter_name "[]"] by (simp add: b_run_Nil)
  show ?thesis
    using u p b u_run_prefix p_run_prefix b_run_prefix
    by (simp add: parse_document_universal_def parse_question_paper_def
        parse_chapter_question_bank_def)
qed

theorem no_boundary_no_records_witness:
  "list_all (\<lambda>l. first_boundary q_patterns l = None \<and>
      re_match no_flags paper_question_start (clean_text_v1 l) = None \<and>
      re_match no_flags bank_question_start (clean_text_v1 l) = None)
     [''(a) concept one'', ''Ans: forty two'', ''Some prose, no number''] \<and>
   u_run ''Paper'' ''Mixed'' [''(a) concept one'', ''Ans: forty two'', ''Some prose, no number''] = [] \<and>
   p_run ''Paper'' [''(a) concept one'', ''Ans: forty two'', ''Some prose, no number''] = [] \<and>
   b_run ''Functions'' [''(a) concept one'', ''Ans: forty two'', ''Some prose, no number''] = [] \<and>
   b_run ''Functions''
     ([''(a) concept one'', ''Ans: forty two'', ''Some prose, no number''] @
      [''1. What is a function?'']) =
   b_run ''Functions'' [''1. What is a function?'']"
proof -
  let ?pre = "[''(a) concept one'', ''Ans: forty two'', ''Some prose, no number'']"
  have all: "list_all (\<lambda>l. first_boundary q_patterns l = None \<and>
      re_match no_flags paper_question_start (clean_text_v1 l) = None \<and>
      re_match no_flags bank_question_start (clean_text_v1 l) = None) ?pre"
    by code_simp
  then have a: "\<forall>l \<in> set ?pre. first_boundary q_patterns l = None"
    and b: "\<forall>l \<in> set ?pre. re_match no_flags paper_question_start (clean_text_v1 l) = None"
    and c: "\<forall>l \<in> set ?pre. re_match no_flags bank_question_start (clean_text_v1 l) = None"
    unfolding list_all_iff by blast+
  note t = no_boundary_no_records [of ?pre "''Paper''" "''Mixed''" "[''1. What is a function?'']"
      "[]" "''Paper''" "''Functions''"]
  show ?thesis using t all a b c by blast
qed

section \<open>Records with options\<close>

lemma detect_with_mcq:
  "(detect_with marks_of t os = ''mcq'') = (2 \<le> length os)"
  by (auto simp add: detect_with_def Let_def)

lemma options_ok_built:
  "options_ok \<lparr>questionText = t, qtype = detect_with marks_of t' os, marks = m,
      options = (if os \<noteq> [] then Some os else None), correctAnswer = a, q_chapter = c,
      source = s\<rparr>"
  by (auto simp add: options_ok_def detect_with_mcq)

lemma save_current_question_ok:
  "\<forall>r \<in> set (questions st). options_ok r \<Longrightarrow>
     \<forall>r \<in> set (questions (save_current_question source_name chapter_default st)). options_ok r"
  using options_ok_built [of _ extract_marks]
  by (auto simp add: save_current_question_def Let_def detect_question_type_def)

lemma u_step_questions:
  "questions (u_step source_name chapter_default st l) = questions st \<or>
   questions (u_step source_name chapter_default st l) =
     questions (save_current_question source_name chapter_default st)"
  by (auto simp add: u_step_def Let_def split: option.splits)

lemma u_loop_ok:
  "\<forall>r \<in> set (questions st). options_ok r \<Longrightarrow>
     \<forall>r \<in> set (questions (u_loop source_name chapter_default st ls)). options_ok r"
proof (induction ls arbitrary: st)
  case Nil
  then show ?case by (simp add: u_loop_def)
next
  case (Cons l ls)
  have "\<forall>r \<in> set (questions (u_step source_name chapter_default st l)). options_ok r"
    using u_step_questions [of source_name chapter_default st l] Cons.prems
      save_current_question_ok [of st source_name chapter_default]
    by auto
  then show ?case using Cons.IH [of "u_step source_name chapter_default st l"]
    by (simp add: u_loop_def)
qed

lemma universal_ok:
  "r \<in> set (parse_document_universal paragraphs source_name chapter_default) \<Longrightarrow> options_ok r"
proof -
  have "\<forall>r \<in> set (questions u_init). options_ok r" by (simp add: u_init_def)
  then have "\<forall>r \<in> set (questions (save_current_question source_name chapter_default
      (u_loop source_name chapter_default u_init (u_lines paragraphs)))). options_ok r"
    by (intro save_current_question_ok u_loop_ok)
  then show "r \<in> set (parse_document_universal paragraphs source_name chapter_default) \<Longrightarrow>
      options_ok r"
    by (simp add: parse_document_universal_def u_run_def)
qed

lemma bank_block_ok:
  "bank_block chapter_name content = Some r \<Longrightarrow> options_ok r"
  by (auto simp add: bank_block_def Let_def detect_question_type_def options_ok_def
      detect_with_mcq split: if_splits)

lemma chapter_bank_ok:
  "r \<in> set (parse_chapter_bank paragraphs chapter_name) \<Longrightarrow> options_ok r"
  by (auto simp add: parse_chapter_bank_def Let_def map_filter_def bank_block_ok)

lemma chapter_document_ok:
  "r \<in> set (chapter_document paragraphs chapter_name) \<Longrightarrow> options_ok r"
  using universal_ok chapter_bank_ok
  by (auto simp add: chapter_document_def Let_def split: if_splits)

lemma p_emit_ok:
  "\<forall>r \<in> set (p_questions st). options_ok r \<Longrightarrow>
     \<forall>r \<in> set (p_emit paper_name st). options_ok r"
  using options_ok_built [of _ extract_marks_v1]
  by (auto simp add: p_emit_def Let_def detect_question_type_v1_def)

lemma p_step_questions:
  "p_questions (p_step paper_name st l) = p_questions st \<or>
   p_questions (p_step paper_name st l) = p_emit paper_name st"
  by (auto simp add: p_step_def Let_def split: option.splits)

lemma p_loop_ok:
  "\<forall>r \<in> set (p_questions st). options_ok r \<Longrightarrow>
     \<forall>r \<in> set (p_questions (foldl (p_step paper_name) st ls)). options_ok r"
proof (induction ls arbitrary: st)
  case Nil
  then show ?case by simp
next
  case (Cons l ls)
  have "\<forall>r \<in> set (p_questions (p_step paper_name st l)). options_ok r"
    using p_step_questions [of paper_name st l] Cons.prems p_emit_ok [of st paper_name]
    by auto
  then show ?case using Cons.IH [of "p_step paper_name st l"] by simp
qed

lemma paper_ok:
  "r \<in> set (parse_question_paper paragraphs paper_name) \<Longrightarrow> options_ok r"
proof -
  have "\<forall>r \<in> set (p_questions p_init). options_ok r" by (simp add: p_init_def)
  then have "\<forall>r \<in> set (p_emit paper_name
      (foldl (p_step paper_name) p_init (p_lines paragraphs))). options_ok r"
    by (intro p_emit_ok p_loop_ok)
  then show "r \<in> set (parse_question_paper paragraphs paper_name) \<Longrightarrow> options_ok r"
    by (simp add: parse_question_paper_def p_run_def)
qed

lemma b_emit_ok:
  "\<forall>r \<in> set (b_questions st). options_ok r \<Longrightarrow>
     \<forall>r \<in> set (b_emit chapter_name st). options_ok r"
  using options_ok_built [of _ extract_marks_v1]
  by (auto simp add: b_emit_def Let_def detect_question_type_v1_def)

lemma b_step_questions:
  "b_questions (b_step chapter_name st l) = b_questions st \<or>
   b_questions (b_step chapter_name st l) = b_emit chapter_name st"
  by (auto simp add: b_step_def Let_def split: option.splits)

lemma b_loop_ok:
  "\<forall>r \<in> set (b_questions st). options_ok r \<Longrightarrow>
     \<forall>r \<in> set (b_questions (foldl (b_step chapter_name) st ls)). options_ok r"
proof (induction ls arbitrary: st)
  case Nil
  then show ?case by simp
next
  case (Cons l ls)
  have "\<forall>r \<in> set (b_questions (b_step chapter_name st l)). options_ok r"
    using b_step_questions [of chapter_name st l] Cons.prems b_emit_ok [of st chapter_name]
    by auto
  then show ?case using Cons.IH [of "b_step chapter_name st l"] by simp
qed

lemma bank_v1_ok:
  "r \<in> set (parse_chapter_question_bank paragraphs chapter_name) \<Longrightarrow> options_ok r"
proof -
  have "\<forall>r \<in> set (b_questions b_init). options_ok r" by (simp add: b_init_def)
  then have "\<forall>r \<in> set (b_emit chapter_name
      (foldl (b_step chapter_name) b_init (b_lines paragraphs))). options_ok r"
    by (intro b_emit_ok b_loop_ok)
  then show "r \<in> set (parse_chapter_question_bank paragraphs chapter_name) \<Longrightarrow> options_ok r"
    by (simp add: parse_chapter_question_bank_def b_run_def)
qed

text \<open>A question followed by a single option line, in the universal parser.\<close>

lemma one_option_record:
  "parse_document_universal [''1. What is inheritance in OOP?'', ''(a) concept one'']
     ''Paper'' ''Mixed'' =
   [\<lparr>questionText = ''What is inheritance in OOP?'', qtype = ''short_answer'', marks = 2,
      options = Some [''A) concept one''], correctAnswer = None, q_chapter = ''Mixed'',
      source = Some ''Paper''\<rparr>]"
  by code_simp

text \<open>
  A record can carry exactly one option: the list is stored as soon as it is not
  empty, and with fewer than two options the type is not \<open>mcq\<close>.
\<close>

theorem options_present_invariant_counterexample:
  "parse_document_universal [''1. What is inheritance in OOP?'', ''(a) concept one'']
     ''Paper'' ''Mixed'' =
   [\<lparr>questionText = ''What is inheritance in OOP?'', qtype = ''short_answer'', marks = 2,
      options = Some [''A) concept one''], correctAnswer = None, q_chapter = ''Mixed'',
      source = Some ''Paper''\<rparr>]"
  by (rule one_option_record)

text \<open>
  Claim C7, amended. Every record emitted by any of the parsers (the universal parser,
  the structured extractor and the selector of version 2, the two parsers of version
  1) whose options are present has at least one option, and its type is \<open>mcq\<close> exactly
  when it has at least two; a record without options never has type \<open>mcq\<close>. A record
  with exactly one option exists, and its type follows the keyword and marks rules.
\<close>

theorem options_present_invariant:
  "r \<in> set (parse_document_universal paragraphs source_name chapter_default) \<or>
   r \<in> set (parse_chapter_bank paragraphs chapter_name) \<or>
   r \<in> set (chapter_document paragraphs chapter_name) \<or>
   r \<in> set (parse_question_paper paragraphs paper_name) \<or>
   r \<in> set (parse_chapter_question_bank paragraphs chapter_name) \<Longrightarrow>
     (\<forall>os. options r = Some os \<longrightarrow> os \<noteq> [] \<and> (qtype r = ''mcq'') = (2 \<le> length os)) \<and>
     (options r = None \<longrightarrow> qtype r \<noteq> ''mcq'')"
proof -
  assume "r \<in> set (parse_document_universal paragraphs source_name chapter_default) \<or>
   r \<in> set (parse_chapter_bank paragraphs chapter_name) \<or>
   r \<in> set (chapter_document paragraphs chapter_name) \<or>
   r \<in> set (parse_question_paper paragraphs paper_name) \<or>
   r \<in> set (parse_chapter_question_bank paragraphs chapter_name)"
  then have "options_ok r"
    using universal_ok chapter_bank_ok chapter_document_ok paper_ok bank_v1_ok by blast
  then show ?thesis by (auto simp add: options_ok_def split: option.splits)
qed

theorem options_present_invariant_witness:
  "\<lparr>questionText = ''What is inheritance in OOP?'', qtype = ''short_answer'', marks = 2,
      options = Some [''A) concept one''], correctAnswer = None, q_chapter = ''Mixed'',
      source = Some ''Paper''\<rparr>
     \<in> set (parse_document_universal [''1. What is inheritance in OOP?'', ''(a) concept one'']
              ''Paper'' ''Mixed'') \<and>
   [''A) concept one''] \<noteq> [] \<and>
   (''short_answer'' = ''mcq'') = (2 \<le> length [''A) concept one''])"
proof -
  let ?r = "\<lparr>questionText = ''What is inheritance in OOP?'', qtype = ''short_answer'',
      marks = 2, options = Some [''A) concept one''], correctAnswer = None,
      q_chapter = ''Mixed'', source = Some ''Paper''\<rparr>"
  have m: "?r \<in> set (parse_document_universal
      [''1. What is inheritance in OOP?'', ''(a) concept one''] ''Paper'' ''Mixed'')"
    by (simp add: one_option_record)
  have "\<forall>os. options ?r = Some os \<longrightarrow> os \<noteq> [] \<and> (qtype ?r = ''mcq'') = (2 \<le> length os)"
    using options_present_invariant [of ?r
        "[''1. What is inheritance in OOP?'', ''(a) concept one'']" "''Paper''" "''Mixed''"] m
    by blast
  then show ?thesis using m by simp
qed

end
